(* ===== verification/Prelude.thy ===== *)
theory Prelude
  imports Main
begin

text \<open>
  Shared vocabulary of the development: the JavaScript string primitives that
  \<open>ConfigTab.tsx\<close> calls (\<open>trim\<close>, \<open>split\<close>, \<open>startsWith\<close>, \<open>endsWith\<close>,
  \<open>slice\<close>, \<open>includes\<close>, \<open>Array.join\<close>) written over \<open>string\<close>, decimal digit
  strings for \<open>nat\<close>, and the generic list lemmas the component theories share.
  JavaScript strings are sequences of UTF-16 code units; the development reads a
  HOL \<open>char\<close> as a code unit below 256 (Latin-1), which covers every character
  the codec treats specially.
\<close>

named_theorems text_simps "equations that evaluate the string primitives on concrete text"

section \<open>Characters\<close>

text \<open>
  \<open>String.prototype.trim\<close> strips WhiteSpace and LineTerminator code points;
  those below 256 are TAB, LF, VT, FF, CR, SPACE and NO-BREAK SPACE.
\<close>

definition is_js_ws :: "char \<Rightarrow> bool" where
  "is_js_ws c \<longleftrightarrow> (of_char c :: nat) \<in> {9, 10, 11, 12, 13, 32, 160}"

definition is_digit :: "char \<Rightarrow> bool" where
  "is_digit c \<longleftrightarrow> 48 \<le> (of_char c :: nat) \<and> (of_char c :: nat) \<le> 57"

definition digit_val :: "char \<Rightarrow> nat" where
  "digit_val c = of_char c - 48"

definition digit_chr :: "nat \<Rightarrow> char" where
  "digit_chr d = char_of (d + 48)"

section \<open>String primitives\<close>

definition trim :: "string \<Rightarrow> string" where
  "trim s = rev (dropWhile is_js_ws (rev (dropWhile is_js_ws s)))"

definition starts_with :: "string \<Rightarrow> string \<Rightarrow> bool" where
  "starts_with s p \<longleftrightarrow> take (length p) s = p"

definition ends_with :: "string \<Rightarrow> string \<Rightarrow> bool" where
  "ends_with s p \<longleftrightarrow> length p \<le> length s \<and> drop (length s - length p) s = p"

text \<open>\<open>s.slice(a, -b)\<close> for \<open>a, b \<ge> 0\<close>: empty when the bounds cross.\<close>

definition slice :: "string \<Rightarrow> nat \<Rightarrow> nat \<Rightarrow> string" where
  "slice s a b = take (length s - b - a) (drop a s)"

text \<open>\<open>s.split(c)\<close> for a one-character separator: never the empty list.\<close>

fun split_on :: "char \<Rightarrow> string \<Rightarrow> string list" where
  "split_on c [] = [[]]"
| "split_on c (x # xs) =
     (if x = c then [] # split_on c xs
      else (let r = split_on c xs in (x # hd r) # tl r))"

text \<open>\<open>parts.join(c)\<close>.\<close>

fun join_with :: "char \<Rightarrow> string list \<Rightarrow> string" where
  "join_with c [] = []"
| "join_with c [w] = w"
| "join_with c (w # ws) = w @ c # join_with c ws"

section \<open>Decimal digit strings\<close>

fun dec_digits :: "nat \<Rightarrow> string" where
  "dec_digits n = (if n < 10 then [digit_chr n] else dec_digits (n div 10) @ [digit_chr (n mod 10)])"

definition digits_val :: "string \<Rightarrow> nat" where
  "digits_val ds = foldl (\<lambda>acc c. 10 * acc + digit_val c) 0 ds"

text \<open>A canonical decimal string: digits only, no leading zero except \<open>0\<close> itself.\<close>

definition canon_digits :: "string \<Rightarrow> bool" where
  "canon_digits ds \<longleftrightarrow> ds \<noteq> [] \<and> list_all is_digit ds \<and> (ds = ''0'' \<or> hd ds \<noteq> CHR ''0'')"

section \<open>Exceptions as values\<close>

text \<open>
  A computation that may throw returns \<open>Inl\<close> of the exception; \<open>sbind\<close>
  runs the rest only after a normal completion, as a statement sequence does.
\<close>

definition sbind :: "'e + 'a \<Rightarrow> ('a \<Rightarrow> 'e + 'b) \<Rightarrow> 'e + 'b" where
  "sbind x f = (case x of Inl e \<Rightarrow> Inl e | Inr a \<Rightarrow> f a)"

declare dec_digits.simps [simp del]

section \<open>Lemmas on the primitives\<close>

lemma sbind_Inl [simp]: "sbind (Inl e) f = Inl e"
  and sbind_Inr [simp]: "sbind (Inr a) f = f a"
  by (simp_all add: sbind_def)

lemma sbind_Inr_right [simp]: "sbind x Inr = x"
  by (cases x) simp_all

lemma sbind_eq_Inr: "sbind x f = Inr b \<longleftrightarrow> (\<exists>a. x = Inr a \<and> f a = Inr b)"
  by (cases x) simp_all

lemma sbind_eq_Inl: "sbind x f = Inl e \<longleftrightarrow> x = Inl e \<or> (\<exists>a. x = Inr a \<and> f a = Inl e)"
  by (cases x) simp_all

lemma is_digit_digit_chr [simp]: "d < 10 \<Longrightarrow> is_digit (digit_chr d)"
  by (simp add: is_digit_def digit_chr_def)

lemma digit_val_digit_chr [simp]: "d < 10 \<Longrightarrow> digit_val (digit_chr d) = d"
  by (simp add: digit_val_def digit_chr_def)

lemma digit_chr_not_ws [simp]: "d < 10 \<Longrightarrow> \<not> is_js_ws (digit_chr d)"
  by (auto simp: is_js_ws_def digit_chr_def)

lemma split_on_not_Nil [simp]: "split_on c s \<noteq> []"
  by (induction s) (auto simp: Let_def)

lemma split_on_append_sep:
  "c \<notin> set w \<Longrightarrow> split_on c (w @ c # s) = w # split_on c s"
  by (induction w) (auto simp: Let_def)

lemma split_on_no_sep:
  "c \<notin> set w \<Longrightarrow> split_on c w = [w]"
  by (induction w) (auto simp: Let_def)

text \<open>Splitting a block of newline-terminated lines gives the lines and a last empty piece.\<close>

lemma split_on_lines:
  "\<forall>l \<in> set ls. c \<notin> set l \<Longrightarrow> split_on c (concat (map (\<lambda>l. l @ [c]) ls) @ s) = ls @ split_on c s"
  by (induction ls) (auto simp: split_on_append_sep)

lemma starts_with_Cons [text_simps]:
  "starts_with (x # xs) (p # ps) \<longleftrightarrow> x = p \<and> starts_with xs ps"
  by (simp add: starts_with_def)

lemma starts_with_Nil [text_simps]:
  "starts_with s [] \<and> (starts_with [] p \<longleftrightarrow> p = [])"
  by (auto simp: starts_with_def)

lemma starts_with_append [simp]: "starts_with (p @ s) p"
  by (simp add: starts_with_def)

lemma ends_with_append [simp]: "ends_with (s @ p) p"
  by (simp add: ends_with_def)

lemma ends_with_rev: "ends_with s p \<longleftrightarrow> starts_with (rev s) (rev p)"
proof -
  have "drop (length s - length p) s = p \<longleftrightarrow> take (length p) (rev s) = rev p"
    if "length p \<le> length s"
    using that by (metis length_rev rev_rev_ident rev_take)
  then show ?thesis
    by (metis ends_with_def starts_with_def take_all length_rev nat_le_linear)
qed

lemma dropWhile_hd_keep: "xs = [] \<or> \<not> P (hd xs) \<Longrightarrow> dropWhile P xs = xs"
  by (cases xs) auto

lemma trim_Cons_ws: "is_js_ws c \<Longrightarrow> trim (c # s) = trim s"
  by (simp add: trim_def)

lemma trim_snoc_ws: "is_js_ws c \<Longrightarrow> trim (s @ [c]) = trim s"
proof (cases "\<forall>x \<in> set s. is_js_ws x")
  case True
  then show ?thesis if "is_js_ws c" using that by (auto simp: trim_def dest: set_dropWhileD)
next
  case False
  then show ?thesis if "is_js_ws c" using that by (auto simp: trim_def dropWhile_append2 dropWhile_append1)
qed

lemma trim_id: "s = [] \<or> (\<not> is_js_ws (hd s) \<and> \<not> is_js_ws (last s)) \<Longrightarrow> trim s = s"
  by (cases s rule: rev_cases) (auto simp: trim_def dropWhile_hd_keep)

subsection \<open>Decimal digits\<close>

lemma of_char_digit_chr [simp]: "d < 10 \<Longrightarrow> (of_char (digit_chr d) :: nat) = d + 48"
  by (simp add: digit_chr_def)

lemma digit_chr_eq_iff: "d < 10 \<Longrightarrow> digit_chr d = c \<longleftrightarrow> of_char c = d + 48"
  by (auto simp: digit_chr_def char_of_eq_iff take_bit_eq_mod)

lemma digit_chr_0 [simp]: "digit_chr 0 = CHR ''0''"
  by (simp add: digit_chr_eq_iff)

lemma digit_chr_digit_val [simp]: "is_digit c \<Longrightarrow> digit_chr (digit_val c) = c"
  by (simp add: is_digit_def digit_chr_def digit_val_def)

lemma digit_val_less [simp]: "is_digit c \<Longrightarrow> digit_val c < 10"
  by (auto simp: is_digit_def digit_val_def)

lemma digit_val_eq_0: "is_digit c \<Longrightarrow> digit_val c = 0 \<longleftrightarrow> c = CHR ''0''"
  by (metis digit_chr_0 digit_chr_digit_val digit_val_digit_chr zero_less_numeral)

lemma digits_val_snoc [simp]: "digits_val (xs @ [c]) = 10 * digits_val xs + digit_val c"
  by (simp add: digits_val_def)

lemma digits_val_Nil [simp]: "digits_val [] = 0"
  by (simp add: digits_val_def)

lemma digits_val_single [simp]: "digits_val [c] = digit_val c"
  by (simp add: digits_val_def)

lemma digits_val_append: "digits_val (xs @ ys) = digits_val xs * 10 ^ length ys + digits_val ys"
  by (induction ys rule: rev_induct) (simp_all add: algebra_simps flip: append_assoc)

lemma dec_digits_small [simp]: "n < 10 \<Longrightarrow> dec_digits n = [digit_chr n]"
  by (simp add: dec_digits.simps)

lemma dec_digits_big: "\<not> n < 10 \<Longrightarrow> dec_digits n = dec_digits (n div 10) @ [digit_chr (n mod 10)]"
  by (simp add: dec_digits.simps)

lemma digits_val_dec_digits [simp]: "digits_val (dec_digits n) = n"
proof (induction n rule: dec_digits.induct)
  case (1 n)
  then show ?case by (cases "n < 10") (simp_all add: dec_digits_big)
qed

lemma dec_digits_all_digits: "list_all is_digit (dec_digits n)"
  by (induction n rule: dec_digits.induct) (simp add: dec_digits.simps)

lemma dec_digits_not_Nil [simp]: "dec_digits n \<noteq> []"
  by (simp add: dec_digits.simps)

lemma hd_dec_digits: "n \<noteq> 0 \<Longrightarrow> hd (dec_digits n) \<noteq> CHR ''0''"
proof (induction n rule: dec_digits.induct)
  case (1 n)
  show ?case
  proof (cases "n < 10")
    case True
    with "1.prems" show ?thesis by (simp add: digit_chr_eq_iff)
  next
    case False
    then have "n div 10 \<noteq> 0" by simp
    with False "1.IH" show ?thesis by (simp add: dec_digits_big)
  qed
qed

lemma canon_dec_digits: "canon_digits (dec_digits n)"
  using dec_digits_all_digits hd_dec_digits
  by (cases "n = 0") (auto simp: canon_digits_def is_digit_def)

lemma digits_val_pos: "list_all is_digit ds \<Longrightarrow> ds \<noteq> [] \<Longrightarrow> hd ds \<noteq> CHR ''0'' \<Longrightarrow> 0 < digits_val ds"
proof (induction ds rule: rev_induct)
  case (snoc c xs)
  show ?case
  proof (cases xs)
    case Nil
    with snoc.prems have "digit_val c \<noteq> 0"
      by (simp add: digit_val_eq_0)
    with Nil show ?thesis by simp
  next
    case (Cons y ys)
    with snoc have "0 < digits_val xs" by simp
    then show ?thesis by simp
  qed
qed simp

lemma dec_digits_digits_val: "canon_digits ds \<Longrightarrow> dec_digits (digits_val ds) = ds"
proof (induction ds rule: rev_induct)
  case (snoc c xs)
  then have c: "is_digit c" by (simp add: canon_digits_def)
  show ?case
  proof (cases xs)
    case Nil
    with c show ?thesis by simp
  next
    case (Cons y ys)
    with snoc.prems have xs: "canon_digits xs" "hd xs \<noteq> CHR ''0''"
      by (auto simp: canon_digits_def)
    then have "0 < digits_val xs"
      by (intro digits_val_pos) (auto simp: canon_digits_def)
    with c have "\<not> digits_val (xs @ [c]) < 10" by simp
    moreover have "digits_val (xs @ [c]) div 10 = digits_val xs"
      and "digits_val (xs @ [c]) mod 10 = digit_val c" using c by simp_all
    ultimately show ?thesis using snoc.IH[OF xs(1)] c by (simp add: dec_digits_big)
  qed
qed (simp add: canon_digits_def)

lemma canon_digits_inj: "canon_digits a \<Longrightarrow> canon_digits b \<Longrightarrow> digits_val a = digits_val b \<Longrightarrow> a = b"
  by (metis dec_digits_digits_val)
end
