(* ===== verification/JsValue.thy ===== *)
theory JsValue
  imports Prelude
begin

text \<open>
  The value model shared by the serializer and the parser of \<open>ConfigTab.tsx\<close>
  (type \<open>TomlValue\<close>, lines 5--9): a JSON value as \<open>JSON.parse\<close> builds it and
  \<open>response.json()\<close> delivers it. An object is the list of its own properties
  in JavaScript's property order: array-index keys first in ascending numeric order,
  then the other keys in creation order (OrdinaryOwnPropertyKeys). The operations
  below are the property writes the code performs (\<open>obj[key] = value\<close>, on a
  plain object whose prototype is \<open>Object.prototype\<close>), the \<open>in\<close> test, and
  \<open>Object.entries\<close>. Numbers are exact decimals \<open>m \<times> 10 ^ e\<close>.
\<close>

section \<open>Values\<close>

datatype json =
    JNull
  | JBool bool
  | JNum int int
  | JStr string
  | JArr "json list"
  | JObj "(string \<times> json) list"

type_synonym props = "(string \<times> json) list"

text \<open>
  Exceptions that leave \<open>toToml\<close> or \<open>parseToml\<close>. \<open>TypeError\<close> and
  \<open>RangeError\<close> are the JavaScript exceptions; \<open>Unmodelled\<close> marks the branches
  where the code writes to an object outside the document (a prototype, a function of
  \<open>Object.prototype\<close>, a named property of an array), which the model does not
  follow further.
\<close>

datatype js_error = TypeError | RangeError | Unmodelled

section \<open>Property keys\<close>

text \<open>An array index is the canonical decimal string of an integer below \<open>2 ^ 32 - 1\<close>.\<close>

definition is_array_index :: "string \<Rightarrow> bool" where
  "is_array_index k \<longleftrightarrow>
     canon_digits k \<and> digits_val k < 4294967295"

definition key_before :: "string \<Rightarrow> string \<Rightarrow> bool" where
  "key_before k1 k2 \<longleftrightarrow>
     (is_array_index k2 \<longrightarrow> is_array_index k1 \<and> digits_val k1 < digits_val k2)"

definition js_ordered :: "props \<Rightarrow> bool" where
  "js_ordered ps \<longleftrightarrow> distinct (map fst ps) \<and> sorted_wrt key_before (map fst ps)"

text \<open>The names \<open>Object.prototype\<close> provides, which \<open>key in obj\<close> also finds.\<close>

definition proto_names :: "string list" where
  "proto_names =
     [''constructor'', ''__defineGetter__'', ''__defineSetter__'', ''hasOwnProperty'',
      ''__lookupGetter__'', ''__lookupSetter__'', ''isPrototypeOf'', ''propertyIsEnumerable'',
      ''toString'', ''valueOf'', ''__proto__'', ''toLocaleString'']"

definition has_property :: "string \<Rightarrow> props \<Rightarrow> bool" where
  "has_property k ps \<longleftrightarrow> k \<in> set (map fst ps) \<or> k \<in> set proto_names"

section \<open>Property writes\<close>

fun insert_index :: "string \<Rightarrow> json \<Rightarrow> props \<Rightarrow> props" where
  "insert_index k v [] = [(k, v)]"
| "insert_index k v ((k', v') # ps) =
     (if is_array_index k' \<and> digits_val k' < digits_val k
      then (k', v') # insert_index k v ps
      else (k, v) # (k', v') # ps)"

fun overwrite :: "string \<Rightarrow> json \<Rightarrow> props \<Rightarrow> props" where
  "overwrite k v [] = []"
| "overwrite k v ((k', v') # ps) = (if k' = k then (k', v) else (k', v')) # overwrite k v ps"

text \<open>CreateDataProperty: overwrite in place, or add the key at its place in the order.\<close>

definition obj_define :: "string \<Rightarrow> json \<Rightarrow> props \<Rightarrow> props" where
  "obj_define k v ps =
     (if k \<in> set (map fst ps) then overwrite k v ps
      else if is_array_index k then insert_index k v ps
      else ps @ [(k, v)])"

text \<open>
  \<open>obj[k] = v\<close> on a plain object: the inherited \<open>__proto__\<close> setter ignores a
  primitive and replaces the prototype with an object, an array or \<open>null\<close>; every
  other key is a data property of \<open>Object.prototype\<close> or absent, so the write
  defines an own property.
\<close>

definition obj_set :: "string \<Rightarrow> json \<Rightarrow> props \<Rightarrow> js_error + props" where
  "obj_set k v ps =
     (if k = ''__proto__'' then
        (case v of JObj _ \<Rightarrow> Inl Unmodelled | JArr _ \<Rightarrow> Inl Unmodelled | JNull \<Rightarrow> Inl Unmodelled
         | _ \<Rightarrow> Inr ps)
      else Inr (obj_define k v ps))"

text \<open>
  The same write on an object whose own properties are all that is read afterwards
  (the serializer's \<open>simple\<close> and \<open>tables\<close>): a \<open>__proto__\<close> write leaves no own
  property whatever its value.
\<close>

definition own_set :: "string \<Rightarrow> json \<Rightarrow> props \<Rightarrow> props" where
  "own_set k v ps = (if k = ''__proto__'' then ps else obj_define k v ps)"

section \<open>Reading\<close>

text \<open>\<open>Object.entries(v)\<close>: \<open>null\<close> throws; a primitive number or boolean has none.\<close>

fun js_entries :: "json \<Rightarrow> js_error + props" where
  "js_entries JNull = Inl TypeError"
| "js_entries (JObj ps) = Inr ps"
| "js_entries (JArr xs) = Inr (map (\<lambda>(i, x). (dec_digits i, x)) (enumerate 0 xs))"
| "js_entries (JStr s) = Inr (map (\<lambda>(i, c). (dec_digits i, JStr [c])) (enumerate 0 s))"
| "js_entries (JNum m e) = Inr []"
| "js_entries (JBool b) = Inr []"

section \<open>Well-formed values\<close>

definition num_normal :: "int \<Rightarrow> int \<Rightarrow> bool" where
  "num_normal m e \<longleftrightarrow> (if m = 0 then e = 0 else \<not> 10 dvd m)"

fun wf_json :: "json \<Rightarrow> bool" where
  "wf_json (JNum m e) = num_normal m e"
| "wf_json (JArr xs) = (\<forall>x \<in> set xs. wf_json x)"
| "wf_json (JObj ps) = (js_ordered ps \<and> (\<forall>kv \<in> set ps. wf_json (snd kv)))"
| "wf_json _ = True"

text \<open>The order property writes put keys in, as a sort of the key list.\<close>

definition js_order :: "props \<Rightarrow> props" where
  "js_order ps =
     sort_key (\<lambda>kv. digits_val (fst kv)) (filter (\<lambda>kv. is_array_index (fst kv)) ps)
     @ filter (\<lambda>kv. \<not> is_array_index (fst kv)) ps"

definition define_all :: "props \<Rightarrow> props \<Rightarrow> props" where
  "define_all ps kvs = foldl (\<lambda>acc kv. obj_define (fst kv) (snd kv) acc) ps kvs"

section \<open>Lemmas: property writes keep the object well ordered\<close>

lemma key_before_trans: "key_before a b \<Longrightarrow> key_before b c \<Longrightarrow> key_before a c"
  by (auto simp: key_before_def)

lemma set_insert_index [simp]: "set (insert_index k v ps) = insert (k, v) (set ps)"
  by (induction ps) (auto split: if_splits)

lemma keys_overwrite [simp]: "map fst (overwrite k v ps) = map fst ps"
  by (induction ps) auto

lemma keys_obj_define [simp]: "fst ` set (obj_define k v ps) = insert k (fst ` set ps)"
proof -
  have "fst ` set (overwrite k v ps) = fst ` set ps"
    by (metis keys_overwrite set_map)
  then show ?thesis by (auto simp: obj_define_def)
qed

lemma map_of_insert_index: "k \<notin> fst ` set ps \<Longrightarrow> map_of (insert_index k v ps) = (map_of ps)(k \<mapsto> v)"
  by (induction ps) (auto simp: fun_upd_twist)

lemma map_of_overwrite:
  "map_of (overwrite k v ps) x = (if x = k \<and> k \<in> fst ` set ps then Some v else map_of ps x)"
  by (induction ps) (fastforce simp: image_iff)+

lemma map_of_obj_define [simp]: "map_of (obj_define k v ps) = (map_of ps)(k \<mapsto> v)"
  by (rule ext) (auto simp: obj_define_def map_of_insert_index map_of_overwrite map_add_def
      split: option.splits simp flip: map_of_eq_None_iff)

lemma insert_index_ordered:
  assumes "js_ordered ps" "k \<notin> fst ` set ps" "is_array_index k"
  shows "js_ordered (insert_index k v ps)"
  using assms
proof (induction ps)
  case Nil
  then show ?case by (simp add: js_ordered_def)
next
  case (Cons kv ps)
  obtain k' v' where kv: "kv = (k', v')" by fastforce
  show ?case
  proof (cases "is_array_index k' \<and> digits_val k' < digits_val k")
    case True
    with Cons kv show ?thesis
      by (auto simp: js_ordered_def key_before_def)
  next
    case False
    have "key_before k k'"
      using False Cons.prems(2,3) canon_digits_inj kv
      by (fastforce simp: key_before_def is_array_index_def)
    moreover have "key_before k k''" if "k'' \<in> fst ` set ps" for k''
      using that Cons.prems(1) \<open>key_before k k'\<close> kv
      by (auto simp: js_ordered_def key_before_def)
    ultimately show ?thesis
      using False Cons.prems kv by (auto simp: js_ordered_def)
  qed
qed

lemma js_ordered_obj_define [intro]: "js_ordered ps \<Longrightarrow> js_ordered (obj_define k v ps)"
proof -
  assume ps: "js_ordered ps"
  consider (old) "k \<in> fst ` set ps" | (idx) "k \<notin> fst ` set ps" "is_array_index k"
    | (plain) "k \<notin> fst ` set ps" "\<not> is_array_index k" by blast
  then show ?thesis
  proof cases
    case old
    with ps show ?thesis by (simp add: obj_define_def js_ordered_def)
  next
    case idx
    with ps show ?thesis by (simp add: obj_define_def insert_index_ordered)
  next
    case plain
    with ps show ?thesis
      by (auto simp: obj_define_def js_ordered_def sorted_wrt_append key_before_def)
  qed
qed

lemma insert_index_end:
  "\<forall>k' \<in> fst ` set ps. is_array_index k' \<and> digits_val k' < digits_val k \<Longrightarrow>
   insert_index k v ps = ps @ [(k, v)]"
  by (induction ps) auto

lemma obj_define_snoc: "js_ordered (ps @ [(k, v)]) \<Longrightarrow> obj_define k v ps = ps @ [(k, v)]"
  by (auto simp: obj_define_def js_ordered_def sorted_wrt_append key_before_def insert_index_end)

lemma define_all_ordered: "js_ordered (acc @ kvs) \<Longrightarrow> define_all acc kvs = acc @ kvs"
proof (induction kvs arbitrary: acc)
  case Nil
  then show ?case by (simp add: define_all_def)
next
  case (Cons kv kvs)
  have "js_ordered (acc @ [kv])"
    using Cons.prems by (auto simp: js_ordered_def sorted_wrt_append)
  then have "obj_define (fst kv) (snd kv) acc = acc @ [kv]"
    by (metis obj_define_snoc prod.collapse)
  moreover have "define_all (acc @ [kv]) kvs = acc @ kv # kvs"
    using Cons.IH[of "acc @ [kv]"] Cons.prems by simp
  ultimately show ?case by (simp add: define_all_def)
qed

lemma define_all_Nil_ordered: "js_ordered ps \<Longrightarrow> define_all [] ps = ps"
  using define_all_ordered[of "[]" ps] by simp

end
