(* ===== verification/JsNumber.thy ===== *)
theory JsNumber
  imports JsValue
begin

text \<open>
  JavaScript numbers as the codec prints and reads them. \<open>toToml\<close> prints a number
  with a template literal (\<open>`${value}`\<close>, \<open>ConfigTab.tsx\<close> line 38) and
  \<open>JSON.stringify\<close> prints array elements the same way: both are
  Number::toString (ECMA-262, 6.1.6.1.20), modelled by \<open>num_to_string\<close> on an
  exact decimal \<open>m \<times> 10 ^ e\<close> normalised so that \<open>m\<close> has no trailing zero.
  \<open>JSON.parse\<close> reads a number with the JSON number grammar, modelled by
  \<open>lex_number\<close> and \<open>num_value\<close>. The main lemma,
  \<open>lex_number_num_to_string\<close>, says that reading a printed number gives it back.
  Rounding to binary64 is not modelled: the decimal is exact, which agrees with
  JavaScript for decimals of at most 15 significant digits in the normal range.
\<close>

text \<open>Strip trailing zeros of the mantissa; zero is \<open>(0, 0)\<close> (JavaScript prints \<open>-0\<close> as \<open>0\<close>).\<close>

function norm_num :: "int \<Rightarrow> int \<Rightarrow> int \<times> int" where
  "norm_num m e =
     (if m = 0 then (0, 0) else if 10 dvd m then norm_num (m div 10) (e + 1) else (m, e))"
  by pat_completeness auto
termination
  by (relation "measure (\<lambda>(m, e). nat \<bar>m\<bar>)") auto

definition pos_num_str :: "nat \<Rightarrow> int \<Rightarrow> string" where
  "pos_num_str s e =
     (let ds = dec_digits s; k = int (length ds); n = e + k in
      if k \<le> n \<and> n \<le> 21 then ds @ replicate (nat (n - k)) CHR ''0''
      else if 0 < n \<and> n \<le> 21 then take (nat n) ds @ CHR ''.'' # drop (nat n) ds
      else if -6 < n \<and> n \<le> 0 then CHR ''0'' # CHR ''.'' # replicate (nat (- n)) CHR ''0'' @ ds
      else (if k = 1 then ds else hd ds # CHR ''.'' # tl ds) @
           CHR ''e'' # (if 0 \<le> n - 1 then CHR ''+'' else CHR ''-'') # dec_digits (nat \<bar>n - 1\<bar>))"

definition num_to_string :: "int \<Rightarrow> int \<Rightarrow> string" where
  "num_to_string m e =
     (if m = 0 then ''0''
      else if m < 0 then CHR ''-'' # pos_num_str (nat (- m)) e
      else pos_num_str (nat m) e)"

fun lex_int :: "string \<Rightarrow> (string \<times> string) option" where
  "lex_int [] = None"
| "lex_int (c # s) =
     (if c = CHR ''0'' then Some (''0'', s)
      else if is_digit c then Some (c # takeWhile is_digit s, dropWhile is_digit s)
      else None)"

definition lex_frac :: "string \<Rightarrow> (string \<times> string) option" where
  "lex_frac s =
     (case s of
        c # r \<Rightarrow>
          if c = CHR ''.'' then
            (if takeWhile is_digit r = [] then None
             else Some (takeWhile is_digit r, dropWhile is_digit r))
          else Some ([], s)
      | [] \<Rightarrow> Some ([], []))"

definition lex_exp :: "string \<Rightarrow> (int \<times> string) option" where
  "lex_exp s =
     (case s of
        c # r \<Rightarrow>
          if c = CHR ''e'' \<or> c = CHR ''E'' then
            (let (neg, r') =
               (case r of
                  d # r'' \<Rightarrow> if d = CHR ''-'' then (True, r'') else if d = CHR ''+'' then (False, r'')
                             else (False, r)
                | [] \<Rightarrow> (False, r));
                 ds = takeWhile is_digit r'
             in if ds = [] then None
                else Some (if neg then - int (digits_val ds) else int (digits_val ds),
                           dropWhile is_digit r'))
          else Some (0, s)
      | [] \<Rightarrow> Some (0, []))"

definition lex_unsigned :: "string \<Rightarrow> ((string \<times> string \<times> int) \<times> string) option" where
  "lex_unsigned s =
     (case lex_int s of
        None \<Rightarrow> None
      | Some (i, s2) \<Rightarrow>
          (case lex_frac s2 of
             None \<Rightarrow> None
           | Some (f, s3) \<Rightarrow>
               (case lex_exp s3 of
                  None \<Rightarrow> None
                | Some (x, s4) \<Rightarrow> Some ((i, f, x), s4))))"

definition lex_number :: "string \<Rightarrow> ((bool \<times> string \<times> string \<times> int) \<times> string) option" where
  "lex_number s =
     (let (neg, s1) = (case s of c # r \<Rightarrow> if c = CHR ''-'' then (True, r) else (False, s) | [] \<Rightarrow> (False, s))
      in map_option (\<lambda>((i, f, x), s4). ((neg, i, f, x), s4)) (lex_unsigned s1))"

definition num_value :: "bool \<times> string \<times> string \<times> int \<Rightarrow> int \<times> int" where
  "num_value p =
     (case p of (neg, i, f, x) \<Rightarrow>
        norm_num ((if neg then -1 else 1) * int (digits_val (i @ f))) (x - int (length f)))"


definition num_delim :: "string \<Rightarrow> bool" where
  "num_delim r \<longleftrightarrow> r = [] \<or> (\<not> is_digit (hd r) \<and> hd r \<notin> {CHR ''.'', CHR ''e'', CHR ''E''})"


section \<open>Lemmas\<close>


declare norm_num.simps [simp del]

lemma norm_num_zero [simp]: "norm_num 0 e = (0, 0)"
  by (subst norm_num.simps) simp

lemma norm_num_dvd: "m \<noteq> 0 \<Longrightarrow> 10 dvd m \<Longrightarrow> norm_num m e = norm_num (m div 10) (e + 1)"
  by (subst norm_num.simps) simp

lemma norm_num_ndvd: "m \<noteq> 0 \<Longrightarrow> \<not> 10 dvd m \<Longrightarrow> norm_num m e = (m, e)"
  by (subst norm_num.simps) simp

lemma norm_num_id: "num_normal m e \<Longrightarrow> norm_num m e = (m, e)"
  by (cases "m = 0") (auto simp: num_normal_def norm_num_ndvd)

lemma norm_num_scale: "m \<noteq> 0 \<Longrightarrow> norm_num (m * 10 ^ j) e = norm_num m (e + int j)"
proof (induction j arbitrary: e)
  case 0
  then show ?case by simp
next
  case (Suc j)
  have "norm_num (m * 10 ^ Suc j) e = norm_num (m * 10 ^ j) (e + 1)"
    using Suc.prems by (subst norm_num_dvd) (simp_all add: ac_simps)
  also have "\<dots> = norm_num m (e + int (Suc j))"
    using Suc.prems Suc.IH[of "e + 1"] by (simp add: ac_simps)
  finally show ?case .
qed

lemma norm_num_neg: "norm_num (- m) e = (- fst (norm_num m e), snd (norm_num m e))"
proof (induction m e rule: norm_num.induct)
  case (1 m e)
  consider "m = 0" | "m \<noteq> 0" "10 dvd m" | "m \<noteq> 0" "\<not> 10 dvd m" by blast
  then show ?case
  proof cases
    case 2
    then have "- m div 10 = - (m div 10)" by auto
    with 2 "1.IH" show ?thesis by (simp add: norm_num_dvd[of m] norm_num_dvd[of "- m"])
  qed (simp_all add: norm_num_ndvd)
qed

lemma digits_stop: "r = [] \<or> \<not> is_digit (hd r) \<Longrightarrow> list_all is_digit ds \<Longrightarrow>
    takeWhile is_digit (ds @ r) = ds \<and> dropWhile is_digit (ds @ r) = r"
  by (induction ds) (cases r; auto)+

lemma digits_val_Cons: "digits_val (c # cs) = digit_val c * 10 ^ length cs + digits_val cs"
  using digits_val_append[of "[c]" cs] by simp

lemma list_all_digit_zeros [simp]: "list_all is_digit (replicate z CHR ''0'')"
  by (simp add: list_all_iff is_digit_def)

lemma digits_val_zeros [simp]: "digits_val (replicate z CHR ''0'' @ ds) = digits_val ds"
proof -
  have "digits_val (replicate z CHR ''0'') = 0"
    by (induction z) (simp_all add: digits_val_Cons digit_val_def)
  then show ?thesis by (simp add: digits_val_append)
qed

lemma digits_delim: "num_delim r \<Longrightarrow> takeWhile is_digit r = [] \<and> dropWhile is_digit r = r"
  by (cases r) (auto simp: num_delim_def)

lemma takeWhile_digits_delim:
  "list_all is_digit ds \<Longrightarrow> num_delim r \<Longrightarrow> takeWhile is_digit (ds @ r) = ds"
  by (induction ds) (simp_all add: digits_delim)

lemma dropWhile_digits_delim:
  "list_all is_digit ds \<Longrightarrow> num_delim r \<Longrightarrow> dropWhile is_digit (ds @ r) = r"
  by (induction ds) (simp_all add: digits_delim)

lemma lex_frac_delim: "num_delim r \<Longrightarrow> lex_frac r = Some ([], r)"
  by (auto simp: lex_frac_def num_delim_def split: list.split)

lemma lex_exp_delim: "num_delim r \<Longrightarrow> lex_exp r = Some (0, r)"
  by (auto simp: lex_exp_def num_delim_def split: list.split)

lemma is_digit_zero [simp]: "is_digit CHR ''0''"
  by (simp add: is_digit_def)

lemma list_all_dec_digits [simp]: "list_all is_digit (dec_digits n)"
  by (rule dec_digits_all_digits)

lemma dec_digits_hd:
  assumes "0 < s"
  obtains d ds' where "dec_digits s = d # ds'" "is_digit d" "d \<noteq> CHR ''0''" "list_all is_digit ds'"
  using assms hd_dec_digits[of s] dec_digits_all_digits[of s]
  by (cases "dec_digits s") auto

lemma lex_int_lead: "is_digit d \<Longrightarrow> d \<noteq> CHR ''0''  \<Longrightarrow> list_all is_digit ds \<Longrightarrow>
    r = [] \<or> \<not> is_digit (hd r) \<Longrightarrow> lex_int (d # ds @ r) = Some (d # ds, r)"
  by (simp add: digits_stop)

lemma list_all_drop: "list_all P xs \<Longrightarrow> list_all P (drop n xs)"
  by (auto simp: list_all_iff dest: in_set_dropD)

lemma list_all_take: "list_all P xs \<Longrightarrow> list_all P (take n xs)"
  by (auto simp: list_all_iff dest: in_set_takeD)

lemma lex_exp_signed:
  assumes "sg = CHR ''+'' \<or> sg = CHR ''-''" "num_delim r"
  shows "lex_exp (CHR ''e'' # sg # dec_digits j @ r) = Some (if sg = CHR ''-'' then - int j else int j, r)"
proof -
  have "r = [] \<or> \<not> is_digit (hd r)" using assms(2) by (auto simp: num_delim_def)
  then have "takeWhile is_digit (dec_digits j @ r) = dec_digits j \<and> dropWhile is_digit (dec_digits j @ r) = r"
    by (simp add: digits_stop)
  with assms(1) show ?thesis by (auto simp: lex_exp_def)
qed

lemma lex_frac_point:
  "list_all is_digit f \<Longrightarrow> f \<noteq> [] \<Longrightarrow> r = [] \<or> \<not> is_digit (hd r) \<Longrightarrow>
   lex_frac (CHR ''.'' # f @ r) = Some (f, r)"
  by (simp add: lex_frac_def digits_stop)

lemma lex_frac_none: "c \<noteq> CHR ''.'' \<Longrightarrow> lex_frac (c # r) = Some ([], c # r)"
  by (simp add: lex_frac_def)

lemma lex_case_int:
  assumes ds: "is_digit d" "d \<noteq> CHR ''0''" "list_all is_digit ds" and r: "num_delim r"
  shows "lex_unsigned (d # ds @ r) = Some ((d # ds, [], 0), r)"
proof -
  have rstop: "r = [] \<or> \<not> is_digit (hd r)" using r by (auto simp: num_delim_def)
  have "lex_int (d # ds @ r) = Some (d # ds, r)" using lex_int_lead[OF ds rstop] .
  then show ?thesis using lex_frac_delim[OF r] lex_exp_delim[OF r] by (simp add: lex_unsigned_def)
qed

lemma lex_case_point:
  assumes ds: "is_digit d" "d \<noteq> CHR ''0''" "list_all is_digit ds'" and i: "i < length ds'"
    and r: "num_delim r"
  shows "lex_unsigned (d # take i ds' @ CHR ''.'' # drop i ds' @ r) =
           Some ((d # take i ds', drop i ds', 0), r)"
proof -
  have rstop: "r = [] \<or> \<not> is_digit (hd r)" using r by (auto simp: num_delim_def)
  have dig: "list_all is_digit (take i ds')" "list_all is_digit (drop i ds')"
    using ds(3) by (simp_all add: list_all_take list_all_drop)
  have li: "lex_int (d # take i ds' @ CHR ''.'' # drop i ds' @ r) = Some (d # take i ds', CHR ''.'' # drop i ds' @ r)"
    using lex_int_lead[OF ds(1,2) dig(1), of "CHR ''.'' # drop i ds' @ r"] by (simp add: is_digit_def)
  have "drop i ds' \<noteq> []" using i by simp
  then have lf: "lex_frac (CHR ''.'' # drop i ds' @ r) = Some (drop i ds', r)"
    using dig(2) rstop by (simp add: lex_frac_point)
  show ?thesis
    using li lf lex_exp_delim[OF r] by (simp add: lex_unsigned_def)
qed

lemma lex_case_small:
  assumes ds: "list_all is_digit ds" "ds \<noteq> []" and r: "num_delim r"
  shows "lex_unsigned (CHR ''0'' # CHR ''.'' # replicate z CHR ''0'' @ ds @ r) =
           Some ((''0'', replicate z CHR ''0'' @ ds, 0), r)"
proof -
  have rstop: "r = [] \<or> \<not> is_digit (hd r)" using r by (auto simp: num_delim_def)
  have "lex_frac (CHR ''.'' # (replicate z CHR ''0'' @ ds) @ r) = Some (replicate z CHR ''0'' @ ds, r)"
    using ds rstop by (intro lex_frac_point) simp_all
  then show ?thesis using lex_exp_delim[OF r] by (simp add: lex_unsigned_def)
qed

lemma lex_case_expo:
  assumes ds: "is_digit d" "d \<noteq> CHR ''0''" "list_all is_digit ds'"
    and sg: "sg = CHR ''+'' \<or> sg = CHR ''-''" and r: "num_delim r"
  shows "lex_unsigned ((if ds' = [] then [d] else d # CHR ''.'' # ds') @ CHR ''e'' # sg # dec_digits j @ r) =
           Some (([d], ds', if sg = CHR ''-'' then - int j else int j), r)"
proof -
  define tail where "tail = CHR ''e'' # sg # dec_digits j @ r"
  have ex: "lex_exp tail = Some (if sg = CHR ''-'' then - int j else int j, r)"
    unfolding tail_def using sg r by (rule lex_exp_signed)
  have tl: "\<not> is_digit (hd tail)" by (simp add: tail_def is_digit_def)
  show ?thesis
  proof (cases "ds' = []")
    case True
    have "lex_int (d # [] @ tail) = Some ([d], tail)"
      using lex_int_lead[OF ds(1,2), of "[]" tail] tl by simp
    moreover have "lex_frac tail = Some ([], tail)" by (simp add: tail_def lex_frac_none)
    ultimately show ?thesis using True ex by (simp add: lex_unsigned_def tail_def)
  next
    case False
    have "lex_int (d # [] @ CHR ''.'' # ds' @ tail) = Some ([d], CHR ''.'' # ds' @ tail)"
      using lex_int_lead[OF ds(1,2), of "[]" "CHR ''.'' # ds' @ tail"] by (simp add: is_digit_def)
    moreover have "lex_frac (CHR ''.'' # ds' @ tail) = Some (ds', tail)"
      using ds(3) False tl by (intro lex_frac_point) simp_all
    ultimately show ?thesis using False ex by (simp add: lex_unsigned_def tail_def)
  qed
qed

lemma lex_unsigned_pos_num_str:
  assumes s: "0 < s" "\<not> 10 dvd s" and r: "num_delim r"
  shows "\<exists>i f x. lex_unsigned (pos_num_str s e @ r) = Some ((i, f, x), r) \<and>
           norm_num (int (digits_val (i @ f))) (x - int (length f)) = (int s, e)"
proof -
  obtain d ds' where ds: "dec_digits s = d # ds'" "is_digit d" "d \<noteq> CHR ''0''" "list_all is_digit ds'"
    using s(1) by (rule dec_digits_hd)
  define k where "k = int (length (dec_digits s))"
  define n where "n = e + k"
  have sval: "digits_val (d # ds') = s" using ds(1) by (metis digits_val_dec_digits)
  have "\<not> (10::int) dvd int s" using s(2) by (metis int_dvd_int_iff of_nat_numeral)
  then have norm: "norm_num (int s) e = (int s, e)"
    using s by (intro norm_num_id) (auto simp: num_normal_def)
  consider (int) "k \<le> n" "n \<le> 21" | (point) "\<not> (k \<le> n \<and> n \<le> 21)" "0 < n" "n \<le> 21"
    | (small) "\<not> (k \<le> n \<and> n \<le> 21)" "\<not> (0 < n \<and> n \<le> 21)" "-6 < n" "n \<le> 0"
    | (expo) "\<not> (k \<le> n \<and> n \<le> 21)" "\<not> (0 < n \<and> n \<le> 21)" "\<not> (-6 < n \<and> n \<le> 0)"
    by linarith
  then show ?thesis
  proof cases
    case int
    define z where "z = nat (n - k)"
    have "pos_num_str s e @ r = d # (ds' @ replicate z CHR ''0'') @ r"
      using int by (simp add: pos_num_str_def Let_def ds(1) k_def n_def z_def)
    then have "lex_unsigned (pos_num_str s e @ r) = Some ((d # ds' @ replicate z CHR ''0'', [], 0), r)"
      using lex_case_int[OF ds(2,3), of "ds' @ replicate z CHR ''0''" r] ds(4) r by simp
    moreover have "digits_val (d # ds' @ replicate z CHR ''0'') = s * 10 ^ z"
      using digits_val_append[of "d # ds'" "replicate z CHR ''0''"] sval
      by (simp add: digits_val_zeros[of z "[]", simplified])
    moreover have "int z = e" using int by (simp add: z_def n_def)
    ultimately show ?thesis
      using norm_num_scale[of "int s" z 0] s(1) norm by auto
  next
    case point
    define i where "i = nat n - 1"
    have i: "i < length ds'" "nat n = Suc i" using point by (auto simp: i_def k_def n_def ds(1))
    have "pos_num_str s e @ r = d # take i ds' @ CHR ''.'' # drop i ds' @ r"
      using point i by (simp add: pos_num_str_def Let_def ds(1) k_def n_def)
    then have "lex_unsigned (pos_num_str s e @ r) = Some ((d # take i ds', drop i ds', 0), r)"
      using lex_case_point[OF ds(2,3,4) i(1) r] by simp
    moreover have "digits_val ((d # take i ds') @ drop i ds') = s" using sval by simp
    moreover have "0 - int (length (drop i ds')) = e"
      using i point by (simp add: k_def n_def ds(1))
    ultimately show ?thesis using norm by auto
  next
    case small
    define z where "z = nat (- n)"
    have "pos_num_str s e @ r = CHR ''0'' # CHR ''.'' # replicate z CHR ''0'' @ (d # ds') @ r"
      using small by (simp add: pos_num_str_def Let_def ds(1) k_def n_def z_def)
    then have "lex_unsigned (pos_num_str s e @ r) = Some ((''0'', replicate z CHR ''0'' @ d # ds', 0), r)"
      using lex_case_small[of "d # ds'" r z] ds(2,4) r by simp
    moreover have "digits_val (''0'' @ replicate z CHR ''0'' @ d # ds') = s"
      using sval digits_val_zeros[of "Suc z" "d # ds'"] by simp
    moreover have "0 - int (length (replicate z CHR ''0'' @ d # ds')) = e"
      using small by (simp add: z_def n_def k_def ds(1))
    ultimately show ?thesis using norm by auto
  next
    case expo
    define sg where "sg = (if 0 \<le> n - 1 then CHR ''+'' else CHR ''-'')"
    have "pos_num_str s e = (if k = 1 then dec_digits s else hd (dec_digits s) # CHR ''.'' # tl (dec_digits s))
        @ CHR ''e'' # sg # dec_digits (nat \<bar>n - 1\<bar>)"
      unfolding pos_num_str_def Let_def k_def[symmetric] n_def[symmetric] sg_def
      by (simp only: if_not_P[OF expo(1)] if_not_P[OF expo(2)] if_not_P[OF expo(3)])
    moreover have "k = 1 \<longleftrightarrow> ds' = []" by (simp add: k_def ds(1))
    ultimately have "pos_num_str s e @ r =
        (if ds' = [] then [d] else d # CHR ''.'' # ds') @ CHR ''e'' # sg # dec_digits (nat \<bar>n - 1\<bar>) @ r"
      by (simp add: ds(1))
    then have "lex_unsigned (pos_num_str s e @ r) = Some (([d], ds', n - 1), r)"
      using lex_case_expo[OF ds(2,3,4), of sg r "nat \<bar>n - 1\<bar>"] r by (auto simp: sg_def)
    moreover have "n - 1 - int (length ds') = e" by (simp add: n_def k_def ds(1))
    ultimately show ?thesis using sval norm by auto
  qed
qed


lemma lex_int_Some_hd: "lex_int t = Some x \<Longrightarrow> t \<noteq> [] \<and> is_digit (hd t)"
  by (cases t) (auto split: if_splits simp: is_digit_def)

lemma lex_unsigned_Some_hd: "lex_unsigned t = Some x \<Longrightarrow> t \<noteq> [] \<and> hd t \<noteq> CHR ''-''"
  using lex_int_Some_hd
  by (fastforce simp: lex_unsigned_def is_digit_def split: option.splits)

lemma lex_number_unsigned:
  "lex_unsigned t = Some ((i, f, x), r) \<Longrightarrow> lex_number t = Some ((False, i, f, x), r)"
  using lex_unsigned_Some_hd[of t] by (cases t) (auto simp: lex_number_def)

lemma lex_number_neg:
  "lex_unsigned t = Some ((i, f, x), r) \<Longrightarrow> lex_number (CHR ''-'' # t) = Some ((True, i, f, x), r)"
  by (simp add: lex_number_def)

lemma norm_num_normal: "num_normal (fst (norm_num m e)) (snd (norm_num m e))"
proof (induction m e rule: norm_num.induct)
  case (1 m e)
  then show ?case
    by (cases "m = 0"; cases "10 dvd m") (simp_all add: norm_num_dvd norm_num_ndvd num_normal_def)
qed


lemma nat_dvd10: "0 \<le> m \<Longrightarrow> 10 dvd nat m \<longleftrightarrow> (10::int) dvd m"
  by (metis int_dvd_int_iff int_nat_eq of_nat_numeral)

lemma lex_number_zero: assumes "num_normal 0 e" "num_delim r"
  shows "\<exists>p. lex_number (num_to_string 0 e @ r) = Some (p, r) \<and> num_value p = (0, e)"
proof -
  have e: "e = 0" using assms(1) by (simp add: num_normal_def)
  have "lex_unsigned (CHR ''0'' # r) = Some ((''0'', [], 0), r)"
    using lex_frac_delim[OF assms(2)] lex_exp_delim[OF assms(2)] by (simp add: lex_unsigned_def)
  then have "lex_number (CHR ''0'' # r) = Some ((False, ''0'', [], 0), r)"
    by (rule lex_number_unsigned)
  moreover have "num_value (False, ''0'', [], 0) = (0, 0)"
    by (simp add: num_value_def digit_val_def)
  ultimately show ?thesis using e by (simp add: num_to_string_def)
qed
lemma lex_number_pos: assumes "num_normal m e" "num_delim r" "0 < m"
  shows "\<exists>p. lex_number (num_to_string m e @ r) = Some (p, r) \<and> num_value p = (m, e)"
proof -
  have "0 < nat m" "\<not> 10 dvd nat m"
    using assms(1,3) by (simp_all add: num_normal_def nat_dvd10)
  from lex_unsigned_pos_num_str[OF this assms(2), of e] obtain i f x where
    l: "lex_unsigned (pos_num_str (nat m) e @ r) = Some ((i, f, x), r)" and
    v: "norm_num (int (digits_val (i @ f))) (x - int (length f)) = (int (nat m), e)" by blast
  from l have "lex_number (num_to_string m e @ r) = Some ((False, i, f, x), r)"
    using assms(3) by (simp add: num_to_string_def lex_number_unsigned)
  moreover have "num_value (False, i, f, x) = (m, e)" using v assms(3) by (simp add: num_value_def)
  ultimately show ?thesis by blast
qed

lemma lex_number_negative: assumes "num_normal m e" "num_delim r" "m < 0"
  shows "\<exists>p. lex_number (num_to_string m e @ r) = Some (p, r) \<and> num_value p = (m, e)"
proof -
  have "0 < nat (- m)" "\<not> 10 dvd nat (- m)"
    using assms(1,3) by (simp_all add: num_normal_def nat_dvd10)
  from lex_unsigned_pos_num_str[OF this assms(2), of e] obtain i f x where
    l: "lex_unsigned (pos_num_str (nat (- m)) e @ r) = Some ((i, f, x), r)" and
    v: "norm_num (int (digits_val (i @ f))) (x - int (length f)) = (int (nat (- m)), e)" by blast
  from l have "lex_number (num_to_string m e @ r) = Some ((True, i, f, x), r)"
    using assms(3) by (simp add: num_to_string_def lex_number_neg)
  moreover have "num_value (True, i, f, x) = (m, e)"
    using v assms(3) norm_num_neg[of "int (digits_val (i @ f))" "x - int (length f)"]
    by (simp add: num_value_def)
  ultimately show ?thesis by blast
qed

theorem lex_number_num_to_string:
  assumes "num_normal m e" "num_delim r"
  shows "\<exists>p. lex_number (num_to_string m e @ r) = Some (p, r) \<and> num_value p = (m, e)"
proof -
  consider "m = 0" | "0 < m" | "m < 0" by linarith
  then show ?thesis
    using lex_number_zero[of e r] lex_number_pos[of m e r] lex_number_negative[of m e r] assms
    by cases auto
qed

end
