(* ===== verification/JsonText.thy ===== *)
theory JsonText
  imports JsNumber
begin

text \<open>
  \<open>JSON.stringify\<close> and \<open>JSON.parse\<close> as the codec uses them: \<open>toToml\<close>
  prints an inline array with \<open>JSON.stringify\<close> (\<open>ConfigTab.tsx\<close> line 34) and
  \<open>parseToml\<close> reads every assigned value with \<open>JSON.parse\<close> first (line 93).
  Both are library functions modelled from ECMA-262 (SerializeJSONProperty,
  QuoteJSONString) and ECMA-404. The parser is a recursive descent bounded by fuel:
  \<open>json_step n ctx s\<close> runs at most \<open>n\<close> nested steps and answers
  \<open>OutOfFuel\<close> beyond; \<open>json_parse\<close> gives it one unit per input character,
  which the lemma \<open>json_step_fuel\<close> shows is always enough. The lemma
  \<open>parse_of_stringify\<close>, that parsing a printed value gives it back, is what the
  TOML round trip uses for inline arrays and quoted strings. These are facts of the
  library the code calls, kept here as lemmas for the codec's proofs.
\<close>

abbreviation dquote :: char where "dquote \<equiv> CHR 0x22"
abbreviation bslash :: char where "bslash \<equiv> CHR 0x5C"

section \<open>JSON.stringify\<close>

definition hex_digit :: "nat \<Rightarrow> char" where
  "hex_digit d = (if d < 10 then digit_chr d else char_of (d + 87))"

definition json_escape_char :: "char \<Rightarrow> string" where
  "json_escape_char c =
     (let n = (of_char c :: nat) in
      if n = 8 then [bslash, CHR ''b'']
      else if n = 9 then [bslash, CHR ''t'']
      else if n = 10 then [bslash, CHR ''n'']
      else if n = 12 then [bslash, CHR ''f'']
      else if n = 13 then [bslash, CHR ''r'']
      else if c = dquote then [bslash, dquote]
      else if c = bslash then [bslash, bslash]
      else if n < 32 then [bslash, CHR ''u'', CHR ''0'', CHR ''0'', hex_digit (n div 16), hex_digit (n mod 16)]
      else [c])"

definition json_quote :: "string \<Rightarrow> string" where
  "json_quote s = dquote # concat (map json_escape_char s) @ [dquote]"

fun json_stringify :: "json \<Rightarrow> string" where
  "json_stringify JNull = ''null''"
| "json_stringify (JBool b) = (if b then ''true'' else ''false'')"
| "json_stringify (JNum m e) = num_to_string m e"
| "json_stringify (JStr s) = json_quote s"
| "json_stringify (JArr xs) = CHR ''['' # join_with CHR '','' (map json_stringify xs) @ '']''"
| "json_stringify (JObj ps) =
     CHR ''{'' # join_with CHR '','' (map (\<lambda>(k, v). json_quote k @ CHR '':'' # json_stringify v) ps) @ ''}''"

section \<open>JSON.parse\<close>

definition is_json_ws :: "char \<Rightarrow> bool" where
  "is_json_ws c \<longleftrightarrow> (of_char c :: nat) \<in> {9, 10, 13, 32}"

definition skip_ws :: "string \<Rightarrow> string" where
  "skip_ws s = dropWhile is_json_ws s"

definition hex_val :: "char \<Rightarrow> nat option" where
  "hex_val c =
     (let n = (of_char c :: nat) in
      if 48 \<le> n \<and> n \<le> 57 then Some (n - 48)
      else if 97 \<le> n \<and> n \<le> 102 then Some (n - 87)
      else if 65 \<le> n \<and> n \<le> 70 then Some (n - 55)
      else None)"

definition hex4 :: "string \<Rightarrow> nat option" where
  "hex4 s =
     (if length s = 4 \<and> (\<forall>c \<in> set s. hex_val c \<noteq> None)
      then Some (foldl (\<lambda>acc c. 16 * acc + the (hex_val c)) 0 s) else None)"

definition unescape :: "char \<Rightarrow> char option" where
  "unescape e =
     (if e = dquote then Some dquote else if e = bslash then Some bslash
      else if e = CHR ''/'' then Some CHR ''/'' else if e = CHR ''b'' then Some (CHR 0x08)
      else if e = CHR ''f'' then Some (CHR 0x0C) else if e = CHR ''n'' then Some (CHR 0x0A)
      else if e = CHR ''r'' then Some (CHR 0x0D) else if e = CHR ''t'' then Some (CHR 0x09)
      else None)"

function lex_str :: "string \<Rightarrow> (string \<times> bool \<times> string) option" where
  "lex_str [] = None"
| "lex_str (c # s) =
     (if c = dquote then Some ([], False, s)
      else if c = bslash then
        (case s of
           [] \<Rightarrow> None
         | e # s' \<Rightarrow>
             if e = CHR ''u'' then
               (case hex4 (take 4 s') of
                  None \<Rightarrow> None
                | Some n \<Rightarrow> map_option (\<lambda>(t, u, r). (char_of n # t, u \<or> 256 \<le> n, r)) (lex_str (drop 4 s')))
             else
               (case unescape e of
                  None \<Rightarrow> None
                | Some d \<Rightarrow> map_option (\<lambda>(t, u, r). (d # t, u, r)) (lex_str s')))
      else if (of_char c :: nat) < 32 then None
      else map_option (\<lambda>(t, u, r). (c # t, u, r)) (lex_str s))"
  by pat_completeness auto
termination
  by (relation "measure length") auto

datatype 'a fuel_result = OutOfFuel | Fail | Done 'a

definition bind_fr :: "'a fuel_result \<Rightarrow> ('a \<Rightarrow> 'b fuel_result) \<Rightarrow> 'b fuel_result" where
  "bind_fr r f = (case r of OutOfFuel \<Rightarrow> OutOfFuel | Fail \<Rightarrow> Fail | Done x \<Rightarrow> f x)"

text \<open>
  The parser's position: reading a value, after an element of an array (the elements
  so far), before a member of an object, after a member (the members so far). The
  flag records a \<open>\\u\<close> escape above Latin-1, which the model cannot represent.
\<close>

datatype json_ctx = InValue | InElems "json list" bool | InMember props bool | InMembers props bool

primrec json_step :: "nat \<Rightarrow> json_ctx \<Rightarrow> string \<Rightarrow> (json \<times> bool \<times> string) fuel_result" where
  "json_step 0 ctx s = OutOfFuel"
| "json_step (Suc n) ctx s =
     (case ctx of
        InValue \<Rightarrow>
          (case skip_ws s of
             [] \<Rightarrow> Fail
           | c # r \<Rightarrow>
               if c = CHR ''{'' then
                 (case skip_ws r of
                    [] \<Rightarrow> Fail
                  | d # r' \<Rightarrow> if d = CHR ''}'' then Done (JObj [], False, r')
                               else json_step n (InMember [] False) r)
               else if c = CHR ''['' then
                 (case skip_ws r of
                    [] \<Rightarrow> Fail
                  | d # r' \<Rightarrow>
                      if d = CHR '']'' then Done (JArr [], False, r')
                      else bind_fr (json_step n InValue r) (\<lambda>(v, u, r''). json_step n (InElems [v] u) r''))
               else if c = dquote then
                 (case lex_str r of None \<Rightarrow> Fail | Some (t, u, r') \<Rightarrow> Done (JStr t, u, r'))
               else if starts_with (c # r) ''true'' then Done (JBool True, False, drop 3 r)
               else if starts_with (c # r) ''false'' then Done (JBool False, False, drop 4 r)
               else if starts_with (c # r) ''null'' then Done (JNull, False, drop 3 r)
               else
                 (case lex_number (c # r) of
                    None \<Rightarrow> Fail
                  | Some (p, r') \<Rightarrow> Done (case num_value p of (m, e) \<Rightarrow> JNum m e, False, r')))
      | InElems acc u \<Rightarrow>
          (case skip_ws s of
             [] \<Rightarrow> Fail
           | c # r \<Rightarrow>
               if c = CHR '','' then
                 bind_fr (json_step n InValue r) (\<lambda>(v, u', r'). json_step n (InElems (acc @ [v]) (u \<or> u')) r')
               else if c = CHR '']'' then Done (JArr acc, u, r)
               else Fail)
      | InMember acc u \<Rightarrow>
          (case skip_ws s of
             [] \<Rightarrow> Fail
           | c # r \<Rightarrow>
               if c \<noteq> dquote then Fail
               else
                 (case lex_str r of
                    None \<Rightarrow> Fail
                  | Some (k, u1, r1) \<Rightarrow>
                      (case skip_ws r1 of
                         [] \<Rightarrow> Fail
                       | d # r2 \<Rightarrow>
                           if d \<noteq> CHR '':'' then Fail
                           else bind_fr (json_step n InValue r2)
                                  (\<lambda>(v, u2, r3). json_step n (InMembers (obj_define k v acc) (u \<or> u1 \<or> u2)) r3))))
      | InMembers acc u \<Rightarrow>
          (case skip_ws s of
             [] \<Rightarrow> Fail
           | c # r \<Rightarrow>
               if c = CHR '','' then json_step n (InMember acc u) r
               else if c = CHR ''}'' then Done (JObj acc, u, r)
               else Fail))"

datatype parse_outcome = JOk json | JSyntaxError | JUnsupported

definition json_parse :: "string \<Rightarrow> parse_outcome" where
  "json_parse s =
     (case json_step (Suc (length s)) InValue s of
        Done (v, u, r) \<Rightarrow> if skip_ws r = [] then (if u then JUnsupported else JOk v) else JSyntaxError
      | _ \<Rightarrow> JSyntaxError)"

section \<open>Auxiliary notions for the round trip\<close>

abbreviation elems_text :: "json list \<Rightarrow> string" where
  "elems_text ys \<equiv> concat (map (\<lambda>y. CHR '','' # json_stringify y) ys)"

definition member_text :: "string \<times> json \<Rightarrow> string" where
  "member_text kv = json_quote (fst kv) @ CHR '':'' # json_stringify (snd kv)"

abbreviation members_text :: "props \<Rightarrow> string" where
  "members_text kvs \<equiv> concat (map (\<lambda>kv. CHR '','' # member_text kv) kvs)"

definition parses_back :: "json \<Rightarrow> bool" where
  "parses_back y \<longleftrightarrow> (\<forall>n r. num_delim r \<longrightarrow> length (json_stringify y) < n \<longrightarrow>
      json_step n InValue (json_stringify y @ r) = Done (y, False, r))"

section \<open>Lemmas\<close>


lemma skip_ws_keep: "s = [] \<or> \<not> is_json_ws (hd s) \<Longrightarrow> skip_ws s = s"
  by (cases s) (auto simp: skip_ws_def)

lemma join_with_Cons: "join_with c (w # ws) = w @ concat (map (\<lambda>x. c # x) ws)"
  by (induction ws arbitrary: w) auto

lemma hex_val_hex_digit [simp]: "d < 16 \<Longrightarrow> hex_val (hex_digit d) = Some d"
proof -
  assume "d < 16"
  then consider "d < 10" | "10 \<le> d" "d < 16" by linarith
  then show ?thesis
  proof cases
    case 1 then show ?thesis by (simp add: hex_digit_def hex_val_def)
  next
    case 2
    then have "(of_char (char_of (d + 87)) :: nat) = d + 87" by simp
    with 2 show ?thesis by (simp add: hex_digit_def hex_val_def)
  qed
qed

lemma hex4_esc: "n < 32 \<Longrightarrow> hex4 [CHR ''0'', CHR ''0'', hex_digit (n div 16), hex_digit (n mod 16)] = Some n"
proof -
  assume n: "n < 32"
  have "hex_val CHR ''0'' = Some 0" by (simp add: hex_val_def)
  moreover have "n div 16 < 16" "n mod 16 < 16" using n by simp_all
  ultimately show ?thesis by (simp add: hex4_def)
qed

lemma char_by_code: "(of_char c :: nat) = of_char d \<Longrightarrow> c = d"
  by simp

lemma lex_str_escape_char:
  "lex_str (json_escape_char c @ t) = map_option (\<lambda>(s, u, r). (c # s, u, r)) (lex_str t)"
proof -
  define n where "n = (of_char c :: nat)"
  consider "n = 8" | "n = 9" | "n = 10" | "n = 12" | "n = 13" | "c = dquote" | "c = bslash"
    | "n < 32" "n \<notin> {8, 9, 10, 12, 13}"
    | "32 \<le> n" "c \<noteq> dquote" "c \<noteq> bslash" by fastforce
  then show ?thesis
  proof cases
    case 1
    then have "c = CHR 0x08" by (intro char_by_code) (simp add: n_def)
    then show ?thesis by (simp add: json_escape_char_def unescape_def)
  next
    case 2
    then have "c = CHR 0x09" by (intro char_by_code) (simp add: n_def)
    then show ?thesis by (simp add: json_escape_char_def unescape_def)
  next
    case 3
    then have "c = CHR 0x0A" by (intro char_by_code) (simp add: n_def)
    then show ?thesis by (simp add: json_escape_char_def unescape_def)
  next
    case 4
    then have "c = CHR 0x0C" by (intro char_by_code) (simp add: n_def)
    then show ?thesis by (simp add: json_escape_char_def unescape_def)
  next
    case 5
    then have "c = CHR 0x0D" by (intro char_by_code) (simp add: n_def)
    then show ?thesis by (simp add: json_escape_char_def unescape_def)
  next
    case 6
    then show ?thesis by (simp add: json_escape_char_def unescape_def)
  next
    case 7
    then show ?thesis by (simp add: json_escape_char_def unescape_def)
  next
    case 8
    then have "c \<noteq> dquote" "c \<noteq> bslash" by (auto simp: n_def)
    moreover have "json_escape_char c =
        [bslash, CHR ''u'', CHR ''0'', CHR ''0'', hex_digit (n div 16), hex_digit (n mod 16)]"
      using 8 calculation by (auto simp: json_escape_char_def Let_def n_def[symmetric])
    moreover have "char_of n = c" by (simp add: n_def)
    ultimately show ?thesis using 8 hex4_esc[of n] by simp
  next
    case 9
    then have "json_escape_char c = [c]"
      by (auto simp: json_escape_char_def Let_def n_def[symmetric])
    with 9 show ?thesis by (simp add: n_def[symmetric])
  qed
qed

lemma lex_str_quote: "lex_str (concat (map json_escape_char s) @ dquote # r) = Some (s, False, r)"
  by (induction s) (simp_all add: lex_str_escape_char)

lemma lex_number_Some_hd:
  "lex_number s = Some x \<Longrightarrow> s \<noteq> [] \<and> (hd s = CHR ''-'' \<or> is_digit (hd s))"
  using lex_unsigned_Some_hd lex_int_Some_hd
  by (cases s) (auto simp: lex_number_def lex_unsigned_def split: if_splits option.splits)

lemma num_to_string_hd:
  assumes "num_normal m e"
  shows "num_to_string m e \<noteq> [] \<and> (hd (num_to_string m e) = CHR ''-'' \<or> is_digit (hd (num_to_string m e)))"
proof -
  have "num_delim []" by (simp add: num_delim_def)
  then obtain p where "lex_number (num_to_string m e) = Some (p, [])"
    using lex_number_num_to_string[OF assms] by fastforce
  then show ?thesis by (rule lex_number_Some_hd)
qed

lemma delim_comma [simp]: "num_delim (CHR '','' # r)" and delim_rbrack [simp]: "num_delim (CHR '']'' # r)"
  and delim_rbrace [simp]: "num_delim (CHR ''}'' # r)"
  by (simp_all add: num_delim_def is_digit_def)

lemma json_step_elems:
  assumes "\<forall>y \<in> set ys. parses_back y" "length (elems_text ys) < n"
  shows "json_step n (InElems acc False) (elems_text ys @ CHR '']'' # r) = Done (JArr (acc @ ys), False, r)"
  using assms
proof (induction ys arbitrary: acc n)
  case Nil
  then obtain n' where "n = Suc n'" by (cases n) auto
  then show ?case by (simp add: skip_ws_def is_json_ws_def)
next
  case (Cons y ys)
  then obtain n' where n: "n = Suc n'" by (cases n) auto
  define rest where "rest = elems_text ys @ CHR '']'' # r"
  have "num_delim rest" by (cases ys) (simp_all add: rest_def)
  moreover have "length (json_stringify y) < n'" using Cons.prems(2) n by simp
  ultimately have y: "json_step n' InValue (json_stringify y @ rest) = Done (y, False, rest)"
    using Cons.prems(1) by (simp add: parses_back_def)
  have ys: "json_step n' (InElems (acc @ [y]) False) rest = Done (JArr (acc @ y # ys), False, r)"
    using Cons.IH[of n' "acc @ [y]"] Cons.prems n by (simp add: rest_def)
  show ?case using y ys n
    by (simp add: rest_def[symmetric] skip_ws_def is_json_ws_def bind_fr_def)
qed

lemma define_all_Cons: "define_all acc (kv # kvs) = define_all (obj_define (fst kv) (snd kv) acc) kvs"
  by (simp add: define_all_def)

lemma json_step_members:
  assumes "\<forall>kv \<in> set (kv0 # kvs). parses_back (snd kv)" "length (member_text kv0 @ members_text kvs) < n"
  shows "json_step n (InMember acc False) (member_text kv0 @ members_text kvs @ CHR ''}'' # r) =
           Done (JObj (define_all acc (kv0 # kvs)), False, r)"
  using assms
proof (induction kvs arbitrary: kv0 acc n)
  case Nil
  then obtain n' where n: "n = Suc n'" by (cases n) auto
  obtain k v where kv0: "kv0 = (k, v)" by fastforce
  have "length (json_stringify v) < n'" using Nil.prems(2) n kv0 by (simp add: member_text_def json_quote_def)
  then have v: "json_step n' InValue (json_stringify v @ CHR ''}'' # r) = Done (v, False, CHR ''}'' # r)"
    using Nil.prems(1) kv0 by (simp add: parses_back_def)
  obtain n'' where n': "n' = Suc n''" using \<open>length (json_stringify v) < n'\<close> by (cases n') auto
  show ?case using v n n' kv0
    by (simp add: member_text_def json_quote_def lex_str_quote skip_ws_def is_json_ws_def bind_fr_def
        define_all_def)
next
  case (Cons kv1 kvs)
  then obtain n' where n: "n = Suc n'" by (cases n) auto
  obtain k v where kv0: "kv0 = (k, v)" by fastforce
  define rest where "rest = members_text (kv1 # kvs) @ CHR ''}'' # r"
  have "length (json_stringify v) < n'" using Cons.prems(2) n kv0 by (simp add: member_text_def json_quote_def)
  then have v: "json_step n' InValue (json_stringify v @ rest) = Done (v, False, rest)"
    using Cons.prems(1) kv0 by (simp add: parses_back_def rest_def)
  obtain n'' where n': "n' = Suc n''" using \<open>length (json_stringify v) < n'\<close> by (cases n') auto
  have "length (member_text kv1 @ members_text kvs) < n''"
    using Cons.prems(2) n n' kv0 by (simp add: member_text_def json_quote_def)
  then have tl: "json_step n'' (InMember (obj_define k v acc) False) (member_text kv1 @ members_text kvs @ CHR ''}'' # r) =
      Done (JObj (define_all (obj_define k v acc) (kv1 # kvs)), False, r)"
    using Cons.IH[of kv1 n'' "obj_define k v acc"] Cons.prems(1) by simp
  have step1: "json_step n (InMember acc False) (member_text kv0 @ members_text (kv1 # kvs) @ CHR ''}'' # r) =
      bind_fr (json_step n' InValue (json_stringify v @ rest))
        (\<lambda>(v', u2, r3). json_step n' (InMembers (obj_define k v' acc) (False \<or> False \<or> u2)) r3)"
    by (simp add: n kv0 member_text_def json_quote_def lex_str_quote skip_ws_def is_json_ws_def rest_def)
  have step2: "json_step n' (InMembers (obj_define k v acc) False) rest =
      json_step n'' (InMember (obj_define k v acc) False) (member_text kv1 @ members_text kvs @ CHR ''}'' # r)"
    by (simp add: n' rest_def skip_ws_def is_json_ws_def)
  show ?case using step1 step2 v tl kv0 by (simp add: bind_fr_def define_all_Cons)
qed

lemma stringify_start:
  "wf_json v \<Longrightarrow> \<exists>c t. json_stringify v = c # t \<and> \<not> is_json_ws c \<and> c \<noteq> CHR '']'' \<and> c \<noteq> CHR ''}''"
proof (cases v)
  case (JNum m e)
  assume "wf_json v"
  with JNum have "num_to_string m e \<noteq> [] \<and> (hd (num_to_string m e) = CHR ''-'' \<or> is_digit (hd (num_to_string m e)))"
    by (simp add: num_to_string_hd)
  with JNum show ?thesis by (cases "num_to_string m e") (auto simp: is_json_ws_def is_digit_def)
qed (auto simp: is_json_ws_def json_quote_def)

lemma skip_ws_stringify: "wf_json v \<Longrightarrow> skip_ws (json_stringify v @ r) = json_stringify v @ r"
  using stringify_start[of v] by (auto simp: skip_ws_def)

theorem wf_parses_back: "wf_json v \<Longrightarrow> parses_back v"
proof (induction v)
  case JNull
  show ?case unfolding parses_back_def
  proof (intro allI impI)
    fix n r assume "length (json_stringify JNull) < n"
    then obtain n' where "n = Suc n'" by (cases n) auto
    then show "json_step n InValue (json_stringify JNull @ r) = Done (JNull, False, r)"
      by (simp add: skip_ws_def is_json_ws_def starts_with_def)
  qed
next
  case (JBool b)
  show ?case unfolding parses_back_def
  proof (intro allI impI)
    fix n r assume "length (json_stringify (JBool b)) < n"
    then obtain n' where "n = Suc n'" by (cases n) auto
    then show "json_step n InValue (json_stringify (JBool b) @ r) = Done (JBool b, False, r)"
      by (cases b) (simp_all add: skip_ws_def is_json_ws_def starts_with_def)
  qed
next
  case (JNum m e)
  show ?case unfolding parses_back_def
  proof (intro allI impI)
    fix n r assume r: "num_delim r" and "length (json_stringify (JNum m e)) < n"
    then obtain n' where n: "n = Suc n'" by (cases n) auto
    have norm: "num_normal m e" using JNum by simp
    obtain p where p: "lex_number (num_to_string m e @ r) = Some (p, r)" "num_value p = (m, e)"
      using lex_number_num_to_string[OF norm r] by blast
    obtain c t where ct: "num_to_string m e = c # t" "c = CHR ''-'' \<or> is_digit c"
      using num_to_string_hd[OF norm] by (cases "num_to_string m e") auto
    then have "\<not> is_json_ws c" "c \<noteq> CHR ''{''" "c \<noteq> CHR ''[''" "c \<noteq> dquote"
      "\<not> starts_with (c # t @ r) ''true''" "\<not> starts_with (c # t @ r) ''false''"
      "\<not> starts_with (c # t @ r) ''null''"
      by (auto simp: is_json_ws_def is_digit_def starts_with_def)
    then show "json_step n InValue (json_stringify (JNum m e) @ r) = Done (JNum m e, False, r)"
      using p ct n by (simp add: skip_ws_def)
  qed
next
  case (JStr s)
  show ?case unfolding parses_back_def
  proof (intro allI impI)
    fix n r assume "length (json_stringify (JStr s)) < n"
    then obtain n' where "n = Suc n'" by (cases n) auto
    then show "json_step n InValue (json_stringify (JStr s) @ r) = Done (JStr s, False, r)"
      by (simp add: skip_ws_def is_json_ws_def json_quote_def lex_str_quote)
  qed
next
  case (JArr xs)
  have elems: "\<forall>x \<in> set xs. parses_back x" using JArr by simp
  show ?case unfolding parses_back_def
  proof (intro allI impI)
    fix n r assume r: "num_delim r" and len: "length (json_stringify (JArr xs)) < n"
    then obtain n' where n: "n = Suc n'" by (cases n) auto
    show "json_step n InValue (json_stringify (JArr xs) @ r) = Done (JArr xs, False, r)"
    proof (cases xs)
      case Nil
      with n show ?thesis by (simp add: skip_ws_def is_json_ws_def)
    next
      case (Cons x xs')
      define rest where "rest = elems_text xs' @ CHR '']'' # r"
      have str: "json_stringify (JArr xs) @ r = CHR ''['' # json_stringify x @ rest"
        using Cons by (simp add: join_with_Cons rest_def o_def)
      have wx: "wf_json x" using JArr.prems Cons by simp
      obtain c t where ct: "json_stringify x = c # t" "\<not> is_json_ws c" "c \<noteq> CHR '']''"
        using stringify_start[OF wx] by blast
      have "num_delim rest" by (cases xs') (simp_all add: rest_def)
      moreover have "length (json_stringify x) < n'" using len n Cons by (simp add: join_with_Cons)
      ultimately have hx: "json_step n' InValue (json_stringify x @ rest) = Done (x, False, rest)"
        using elems Cons by (simp add: parses_back_def)
      have "length (elems_text xs') < n'" using len n Cons by (simp add: join_with_Cons o_def)
      then have tl: "json_step n' (InElems [x] False) rest = Done (JArr ([x] @ xs'), False, r)"
        using json_step_elems[of xs' n' "[x]" r] elems Cons by (simp add: rest_def)
      have "json_step n InValue (json_stringify (JArr xs) @ r) =
          bind_fr (json_step n' InValue (json_stringify x @ rest)) (\<lambda>(v, u, r''). json_step n' (InElems [v] u) r'')"
        unfolding str using ct n by (simp add: skip_ws_def is_json_ws_def)
      then show ?thesis using hx tl Cons by (simp add: bind_fr_def)
    qed
  qed
next
  case (JObj ps)
  have mem: "\<forall>kv \<in> set ps. parses_back (snd kv)" using JObj by (fastforce simp: prod_set_simps)
  show ?case unfolding parses_back_def
  proof (intro allI impI)
    fix n r assume r: "num_delim r" and len: "length (json_stringify (JObj ps)) < n"
    then obtain n' where n: "n = Suc n'" by (cases n) auto
    show "json_step n InValue (json_stringify (JObj ps) @ r) = Done (JObj ps, False, r)"
    proof (cases ps)
      case Nil
      with n show ?thesis by (simp add: skip_ws_def is_json_ws_def)
    next
      case (Cons kv0 kvs)
      have str: "json_stringify (JObj ps) @ r = CHR ''{'' # member_text kv0 @ members_text kvs @ CHR ''}'' # r"
        using Cons by (simp add: join_with_Cons member_text_def case_prod_beta o_def)
      have "length (member_text kv0 @ members_text kvs) < n'"
        using len n Cons by (simp add: join_with_Cons member_text_def case_prod_beta o_def)
      then have "json_step n' (InMember [] False) (member_text kv0 @ members_text kvs @ CHR ''}'' # r) =
          Done (JObj (define_all [] ps), False, r)"
        using json_step_members[of kv0 kvs n' "[]" r] mem Cons by simp
      moreover have "define_all [] ps = ps" using JObj.prems by (simp add: define_all_Nil_ordered)
      moreover have "json_step n InValue (json_stringify (JObj ps) @ r) =
          json_step n' (InMember [] False) (member_text kv0 @ members_text kvs @ CHR ''}'' # r)"
        unfolding str using n by (simp add: skip_ws_def is_json_ws_def member_text_def json_quote_def)
      ultimately show ?thesis by simp
    qed
  qed
qed

lemma skip_ws_length: "length (skip_ws s) \<le> length s"
  by (simp add: skip_ws_def length_dropWhile_le)

lemma lex_str_length: "lex_str s = Some x \<Longrightarrow> length (snd (snd x)) < length s"
proof (induction s arbitrary: x rule: lex_str.induct)
  case 1
  then show ?case by simp
next
  case (2 c s)
  then show ?case
    by (fastforce split: if_splits list.splits option.splits)
qed

lemma lex_int_length: "lex_int s = Some (i, s2) \<Longrightarrow> length s2 < length s"
  by (cases s) (auto split: if_splits simp: length_dropWhile_le le_imp_less_Suc)

lemma lex_frac_length: "lex_frac s = Some (f, s3) \<Longrightarrow> length s3 \<le> length s"
  by (auto simp: lex_frac_def length_dropWhile_le le_SucI split: list.splits if_splits)

lemma lex_exp_length: "lex_exp s = Some (x, s4) \<Longrightarrow> length s4 \<le> length s"
  by (auto simp: lex_exp_def Let_def length_dropWhile_le le_SucI split: list.splits if_splits prod.splits
      intro: order_trans[OF length_dropWhile_le])

lemma lex_number_length: "lex_number s = Some (p, r) \<Longrightarrow> length r < length s"
proof -
  have u: "lex_unsigned s1 = Some (q, r) \<Longrightarrow> length r < length s1" for s1 q
    using lex_int_length lex_frac_length lex_exp_length
    by (fastforce simp: lex_unsigned_def split: option.splits)
  assume "lex_number s = Some (p, r)"
  then show ?thesis
    by (auto simp: lex_number_def split: list.splits if_splits dest!: u)
qed

lemma bind_fr_Done: "bind_fr r f = Done y \<Longrightarrow> \<exists>x. r = Done x \<and> f x = Done y"
  by (cases r) (auto simp: bind_fr_def)

lemma bind_fr_fuel: "r \<noteq> OutOfFuel \<Longrightarrow> (\<And>x. r = Done x \<Longrightarrow> f x \<noteq> OutOfFuel) \<Longrightarrow> bind_fr r f \<noteq> OutOfFuel"
  by (cases r) (auto simp: bind_fr_def)

lemma step_value:
  assumes IH: "\<And>ctx s. length s < n \<Longrightarrow> json_step n ctx s \<noteq> OutOfFuel \<and>
      (\<forall>v u r. json_step n ctx s = Done (v, u, r) \<longrightarrow> length r < length s)"
    and len: "length s < Suc n"
  shows "json_step (Suc n) InValue s \<noteq> OutOfFuel \<and>
      (\<forall>v u r. json_step (Suc n) InValue s = Done (v, u, r) \<longrightarrow> length r < length s)"
proof (cases "skip_ws s")
  case Nil
  then show ?thesis by simp
next
  case (Cons c r)
  have r: "length r < length s" using skip_ws_length[of s] Cons by simp
  have sr: "length (skip_ws r) \<le> length r" by (rule skip_ws_length)
  have ihr: "json_step n ctx r \<noteq> OutOfFuel \<and> (\<forall>v u r'. json_step n ctx r = Done (v, u, r') \<longrightarrow> length r' < length r)" for ctx
    using IH r len by simp
  have ihr': "json_step n ctx r' \<noteq> OutOfFuel" if "length r' < length r" for ctx r'
    using IH that r len by simp
  have ihr'': "length r'' < length r" if "json_step n ctx r' = Done (v, u, r'')" "length r' < length r" for ctx r' r'' v u
    using IH[of r' ctx] that r len by simp
  have lstr: "lex_str r = Some (t, u, r') \<Longrightarrow> length r' < length r" for t u r'
    using lex_str_length[of r "(t, u, r')"] by simp
  have lnum: "lex_number (c # r) = Some (p, r') \<Longrightarrow> length r' < length s" for p r'
    using lex_number_length[of "c # r" p r'] r by simp
  show ?thesis
  proof (cases "c = CHR ''{''")
    case True
    then show ?thesis using Cons r sr ihr[of "InMember [] False"]
      by (auto split: list.splits dest: less_trans)
  next
    case c1: False
    show ?thesis
    proof (cases "c = CHR ''[''")
      case True
      have "bind_fr (json_step n InValue r) (\<lambda>(v, u, r''). json_step n (InElems [v] u) r'') \<noteq> OutOfFuel"
        using ihr[of InValue] ihr' by (intro bind_fr_fuel) auto
      moreover have "length r3 < length r"
        if "bind_fr (json_step n InValue r) (\<lambda>(v, u, r''). json_step n (InElems [v] u) r'') = Done (v3, u3, r3)"
        for v3 u3 r3
        using bind_fr_Done[OF that] ihr[of InValue] ihr'' by fastforce
      ultimately show ?thesis using Cons True r sr
        by (auto split: list.splits)
    next
      case c2: False
      show ?thesis
        using Cons c1 c2 r lstr lnum
        by (auto split: option.splits prod.splits)
    qed
  qed
qed

lemma step_elems:
  assumes IH: "\<And>ctx s. length s < n \<Longrightarrow> json_step n ctx s \<noteq> OutOfFuel \<and>
      (\<forall>v u r. json_step n ctx s = Done (v, u, r) \<longrightarrow> length r < length s)"
    and len: "length s < Suc n"
  shows "json_step (Suc n) (InElems acc u0) s \<noteq> OutOfFuel \<and>
      (\<forall>v u r. json_step (Suc n) (InElems acc u0) s = Done (v, u, r) \<longrightarrow> length r < length s)"
proof (cases "skip_ws s")
  case Nil
  then show ?thesis by simp
next
  case (Cons c r)
  have r: "length r < length s" using skip_ws_length[of s] Cons by simp
  have ihr: "json_step n ctx r' \<noteq> OutOfFuel \<and> (\<forall>v u r''. json_step n ctx r' = Done (v, u, r'') \<longrightarrow> length r'' < length r')"
    if "length r' \<le> length r" for ctx r'
    using IH that r len by simp
  let ?f = "\<lambda>(v, u', r'). json_step n (InElems (acc @ [v]) (u0 \<or> u')) r'"
  have b1: "json_step n InValue r \<noteq> OutOfFuel" using ihr[of r InValue] by simp
  have b2: "length r' < length r" if "json_step n InValue r = Done (v, u', r')" for v u' r'
    using ihr[of r InValue] that by blast
  have f1: "?f x \<noteq> OutOfFuel \<and> (\<forall>y. ?f x = Done y \<longrightarrow> length (snd (snd y)) < length r)"
    if "json_step n InValue r = Done x" for x
  proof -
    obtain v u' r' where x: "x = (v, u', r')" by (cases x)
    have "length r' < length r" using b2 that x by simp
    then show ?thesis using ihr[of r' "InElems (acc @ [v]) (u0 \<or> u')"] x by auto
  qed
  have "bind_fr (json_step n InValue r) ?f \<noteq> OutOfFuel"
    using b1 f1 by (intro bind_fr_fuel) auto
  moreover have "length r3 < length r" if "bind_fr (json_step n InValue r) ?f = Done (v3, u3, r3)" for v3 u3 r3
    using bind_fr_Done[OF that] f1 by fastforce
  ultimately show ?thesis using Cons r by (simp split: if_splits) (meson less_trans)
qed

lemma step_member:
  assumes IH: "\<And>ctx s. length s < n \<Longrightarrow> json_step n ctx s \<noteq> OutOfFuel \<and>
      (\<forall>v u r. json_step n ctx s = Done (v, u, r) \<longrightarrow> length r < length s)"
    and len: "length s < Suc n"
  shows "json_step (Suc n) (InMember acc u0) s \<noteq> OutOfFuel \<and>
      (\<forall>v u r. json_step (Suc n) (InMember acc u0) s = Done (v, u, r) \<longrightarrow> length r < length s)"
proof (cases "skip_ws s")
  case Nil
  then show ?thesis by simp
next
  case (Cons c r)
  have r: "length r < length s" using skip_ws_length[of s] Cons by simp
  show ?thesis
  proof (cases "c = dquote \<and> lex_str r \<noteq> None")
    case False
    then show ?thesis using Cons by (cases "lex_str r") auto
  next
    case True
    then obtain k u1 r1 where lx: "lex_str r = Some (k, u1, r1)" by auto
    have r1: "length r1 < length r" using lex_str_length[of r "(k, u1, r1)"] lx by simp
    show ?thesis
    proof (cases "skip_ws r1")
      case Nil
      then show ?thesis using Cons True lx by simp
    next
      case (Cons d r2)
      have r2: "length r2 < length s" using skip_ws_length[of r1] Cons r1 r by simp
      let ?f = "\<lambda>(v, u2, r3). json_step n (InMembers (obj_define k v acc) (u0 \<or> u1 \<or> u2)) r3"
      have b1: "json_step n InValue r2 \<noteq> OutOfFuel" using IH[of r2 InValue] r2 len by simp
      have f1: "?f x \<noteq> OutOfFuel \<and> (\<forall>y. ?f x = Done y \<longrightarrow> length (snd (snd y)) < length s)"
        if "json_step n InValue r2 = Done x" for x
      proof -
        obtain v u2 r3 where x: "x = (v, u2, r3)" by (cases x)
        have "length r3 < length s" using IH[of r2 InValue] r2 len that x by auto
        then show ?thesis using IH[of r3 "InMembers (obj_define k v acc) (u0 \<or> u1 \<or> u2)"] x len by auto
      qed
      have "bind_fr (json_step n InValue r2) ?f \<noteq> OutOfFuel"
        using b1 f1 by (intro bind_fr_fuel) auto
      moreover have "length r4 < length s" if "bind_fr (json_step n InValue r2) ?f = Done (v4, u4, r4)" for v4 u4 r4
        using bind_fr_Done[OF that] f1 by fastforce
      ultimately show ?thesis using \<open>skip_ws s = c # r\<close> True lx Cons by (simp split: if_splits)
    qed
  qed
qed

lemma step_members:
  assumes IH: "\<And>ctx s. length s < n \<Longrightarrow> json_step n ctx s \<noteq> OutOfFuel \<and>
      (\<forall>v u r. json_step n ctx s = Done (v, u, r) \<longrightarrow> length r < length s)"
    and len: "length s < Suc n"
  shows "json_step (Suc n) (InMembers acc u0) s \<noteq> OutOfFuel \<and>
      (\<forall>v u r. json_step (Suc n) (InMembers acc u0) s = Done (v, u, r) \<longrightarrow> length r < length s)"
proof (cases "skip_ws s")
  case Nil
  then show ?thesis by simp
next
  case (Cons c r)
  have r: "length r < length s" using skip_ws_length[of s] Cons by simp
  then have "json_step n (InMember acc u0) r \<noteq> OutOfFuel \<and>
      (\<forall>v u r'. json_step n (InMember acc u0) r = Done (v, u, r') \<longrightarrow> length r' < length r)"
    using IH[of r "InMember acc u0"] len by simp
  then show ?thesis using Cons r by (simp split: if_splits) (meson less_trans)
qed

theorem json_step_fuel:
  "length s < n \<Longrightarrow> json_step n ctx s \<noteq> OutOfFuel \<and>
     (\<forall>v u r. json_step n ctx s = Done (v, u, r) \<longrightarrow> length r < length s)"
proof (induction n arbitrary: ctx s)
  case 0
  then show ?case by simp
next
  case (Suc n)
  show ?case
  proof (cases ctx)
    case InValue
    then show ?thesis using step_value[OF Suc.IH Suc.prems] by simp
  next
    case (InElems acc u)
    then show ?thesis using step_elems[OF Suc.IH Suc.prems] by simp
  next
    case (InMember acc u)
    then show ?thesis using step_member[OF Suc.IH Suc.prems] by simp
  next
    case (InMembers acc u)
    then show ?thesis using step_members[OF Suc.IH Suc.prems] by simp
  qed
qed

lemma parse_of_stringify: "wf_json v \<Longrightarrow> json_parse (json_stringify v) = JOk v"
proof -
  assume "wf_json v"
  then have "parses_back v" by (rule wf_parses_back)
  moreover have "num_delim []" by (simp add: num_delim_def)
  ultimately have "json_step (Suc (length (json_stringify v))) InValue (json_stringify v @ []) = Done (v, False, [])"
    unfolding parses_back_def by blast
  then show ?thesis by (simp add: json_parse_def skip_ws_def)
qed

end
