(* ===== verification/TomlSerialize.thy ===== *)
theory TomlSerialize
  imports JsonText
begin

text \<open>
  The serializer \<open>toToml\<close> of \<open>ConfigTab.tsx\<close> (lines 16--55). It reads the
  entries of its argument with \<open>Object.entries\<close>, sorts them into three groups
  (\<open>simple\<close>, \<open>tables\<close>, \<open>arrays\<close>, lines 22--30), prints the simple entries
  as \<open>key = value\<close> lines (32--40), then every table under a \<open>[key]\<close> header
  (42--45) and every element of every table array under a \<open>[[key]]\<close> header
  (47--52), recursively. The \<open>indent\<close> argument never reaches the output and is
  left out. A \<open>TypeError\<close> thrown by a nested \<open>Object.entries(null)\<close> leaves
  the whole call: \<open>toToml\<close> returns \<open>js_error + string\<close>.
\<close>

section \<open>Grouping the entries\<close>

text \<open>\<open>typeof value[0] === 'object'\<close>: objects, arrays and \<open>null\<close>.\<close>

definition typeof_object :: "json \<Rightarrow> bool" where
  "typeof_object v \<longleftrightarrow> (case v of JObj _ \<Rightarrow> True | JArr _ \<Rightarrow> True | JNull \<Rightarrow> True | _ \<Rightarrow> False)"

type_synonym groups = "props \<times> props \<times> (string \<times> json list) list"

text \<open>One iteration of the loop of lines 22--30 on \<open>(simple, tables, arrays)\<close>.\<close>

definition group_entry :: "groups \<Rightarrow> string \<times> json \<Rightarrow> groups" where
  "group_entry acc kv =
     (case acc of (simple, tables, arrays) \<Rightarrow>
        (case kv of (key, value) \<Rightarrow>
           (case value of
              JArr (x # xs) \<Rightarrow>
                if typeof_object x then (simple, tables, arrays @ [(key, x # xs)])
                else (own_set key value simple, tables, arrays)
            | JObj _ \<Rightarrow> (simple, own_set key value tables, arrays)
            | _ \<Rightarrow> (own_set key value simple, tables, arrays))))"

definition group_entries :: "props \<Rightarrow> groups" where
  "group_entries entries = foldl group_entry ([], [], []) entries"

section \<open>Printing\<close>

text \<open>
  A template literal \<open>`${value}`\<close> applies ToString: \<open>null\<close>, booleans and
  numbers print as themselves, an array joins its elements with commas (\<open>null\<close>
  elements as the empty string), an object prints as \<open>[object Object]\<close>.
\<close>

fun js_template :: "json \<Rightarrow> string" where
  "js_template JNull = ''null''"
| "js_template (JBool b) = (if b then ''true'' else ''false'')"
| "js_template (JNum m e) = num_to_string m e"
| "js_template (JStr s) = s"
| "js_template (JArr xs) = join_with CHR '','' (map (\<lambda>x. if x = JNull then [] else js_template x) xs)"
| "js_template (JObj ps) = ''[object Object]''"

text \<open>The body of the loop of lines 32--40.\<close>

definition scalar_line :: "string \<times> json \<Rightarrow> string" where
  "scalar_line kv =
     (case kv of (key, value) \<Rightarrow>
        key @ '' = '' @
        (case value of
           JArr _ \<Rightarrow> json_stringify value
         | JStr s \<Rightarrow> dquote # s @ [dquote]
         | _ \<Rightarrow> js_template value) @ ''\<newline>'')"

text \<open>
  \<open>toToml\<close> and its three loops over \<open>tables\<close>, \<open>arrays\<close> and the items of one
  table array, each loop written as a recursion over its list. Each loop body appends
  the header and then the nested result, so an exception from the nested call ends
  the loop.
\<close>

function toToml :: "json \<Rightarrow> js_error + string"
  and emit_tables :: "props \<Rightarrow> js_error + string"
  and emit_arrays :: "(string \<times> json list) list \<Rightarrow> js_error + string"
  and emit_items :: "string \<Rightarrow> json list \<Rightarrow> js_error + string"
where
  "toToml obj =
     (case js_entries obj of
        Inl e \<Rightarrow> Inl e
      | Inr entries \<Rightarrow>
          (case group_entries entries of (simple, tables, arrays) \<Rightarrow>
             sbind (emit_tables tables) (\<lambda>t.
             sbind (emit_arrays arrays) (\<lambda>a.
             Inr (concat (map scalar_line simple) @ t @ a)))))"
| "emit_tables [] = Inr []"
| "emit_tables ((key, value) # ts) =
     sbind (toToml value) (\<lambda>s. sbind (emit_tables ts) (\<lambda>rest.
     Inr (''\<newline>['' @ key @ '']\<newline>'' @ s @ rest)))"
| "emit_arrays [] = Inr []"
| "emit_arrays ((key, items) # as) =
     sbind (emit_items key items) (\<lambda>s. sbind (emit_arrays as) (\<lambda>rest. Inr (s @ rest)))"
| "emit_items key [] = Inr []"
| "emit_items key (item # items) =
     sbind (toToml item) (\<lambda>s. sbind (emit_items key items) (\<lambda>rest.
     Inr (''\<newline>[['' @ key @ '']]\<newline>'' @ s @ rest)))"
  by pat_completeness auto

text \<open>
  The termination measure: a call on a value weighs twice its size; a loop over a
  list weighs three more than twice the largest value it will pass to \<open>toToml\<close>,
  and the list's length breaks ties.
\<close>

definition toml_measure :: "(json + props) + (string \<times> json list) list + string \<times> json list \<Rightarrow> nat" where
  "toml_measure x =
     (case x of
        Inl (Inl obj) \<Rightarrow> 2 * size obj + 2
      | Inl (Inr ts) \<Rightarrow> if ts = [] then 0 else 2 * Max ((\<lambda>kv. size (snd kv)) ` set ts) + 3
      | Inr (Inl as) \<Rightarrow> if as = [] then 0 else 2 * Max ((\<lambda>kx. size (JArr (snd kx))) ` set as) + 3
      | Inr (Inr (k, items)) \<Rightarrow> if items = [] then 0 else 2 * Max (size ` set items) + 3)"

definition toml_length :: "(json + props) + (string \<times> json list) list + string \<times> json list \<Rightarrow> nat" where
  "toml_length x =
     (case x of
        Inl (Inl obj) \<Rightarrow> 0
      | Inl (Inr ts) \<Rightarrow> length ts
      | Inr (Inl as) \<Rightarrow> length as
      | Inr (Inr (k, items)) \<Rightarrow> length items)"

section \<open>Reference notions\<close>

text \<open>The three groups by the shape of the value, as the specification states them.\<close>

definition is_table_array :: "json \<Rightarrow> bool" where
  "is_table_array v \<longleftrightarrow> (case v of JArr (x # xs) \<Rightarrow> typeof_object x | _ \<Rightarrow> False)"

definition is_table :: "json \<Rightarrow> bool" where
  "is_table v \<longleftrightarrow> (case v of JObj _ \<Rightarrow> True | _ \<Rightarrow> False)"

definition is_simple :: "json \<Rightarrow> bool" where
  "is_simple v \<longleftrightarrow> \<not> is_table v \<and> \<not> is_table_array v"

definition array_elems :: "json \<Rightarrow> json list" where
  "array_elems v = (case v of JArr xs \<Rightarrow> xs | _ \<Rightarrow> [])"

definition group_ref :: "props \<Rightarrow> groups" where
  "group_ref es =
     (filter (\<lambda>kv. is_simple (snd kv)) es,
      filter (\<lambda>kv. is_table (snd kv)) es,
      map (\<lambda>kv. (fst kv, array_elems (snd kv))) (filter (\<lambda>kv. is_table_array (snd kv)) es))"

text \<open>A \<open>null\<close> inside an array, at any depth.\<close>

fun null_in_array :: "json \<Rightarrow> bool" where
  "null_in_array (JArr xs) = (JNull \<in> set xs \<or> (\<exists>x \<in> set xs. null_in_array x))"
| "null_in_array (JObj ps) = (\<exists>kv \<in> set ps. null_in_array (snd kv))"
| "null_in_array _ = False"

section \<open>Termination\<close>

lemma snd_overwrite: "snd ` set (overwrite k v ps) \<subseteq> insert v (snd ` set ps)"
  by (induction ps) (force split: if_splits)+

lemma snd_obj_define: "snd ` set (obj_define k v ps) \<subseteq> insert v (snd ` set ps)"
  using snd_overwrite[of k v ps] by (auto simp: obj_define_def)

lemma snd_own_set: "snd ` set (own_set k v ps) \<subseteq> insert v (snd ` set ps)"
  using snd_obj_define by (auto simp: own_set_def)

lemma group_entry_cases:
  "group_entry (s, t, a) (k, v) =
     (if \<exists>ps. v = JObj ps then (s, own_set k v t, a)
      else if \<exists>x xs. v = JArr (x # xs) \<and> typeof_object x then (s, t, a @ [(k, case v of JArr xs \<Rightarrow> xs)])
      else (own_set k v s, t, a))"
  by (cases v rule: json.exhaust) (auto simp: group_entry_def split: list.splits)

lemma group_entry_from:
  assumes g: "group_entry (s0, t0, a0) (k, v) = (s1, t1, a1)"
  shows "snd ` set t1 \<subseteq> snd ` set t0 \<union> {v. \<exists>ps. v = JObj ps} \<inter> {v}
    \<and> set a1 \<subseteq> set a0 \<union> {(k', xs). k' = k \<and> v = JArr xs}"
proof (cases "\<exists>ps. v = JObj ps")
  case True
  with g show ?thesis using snd_own_set[of k v t0] by (auto simp: group_entry_cases)
next
  case False
  show ?thesis
  proof (cases "\<exists>x xs. v = JArr (x # xs) \<and> typeof_object x")
    case True
    with False g show ?thesis by (auto simp: group_entry_cases)
  next
    case False2: False
    have "(s1, t1, a1) = (own_set k v s0, t0, a0)"
      using g unfolding group_entry_cases if_not_P[OF False] if_not_P[OF False2] by simp
    then show ?thesis by simp
  qed
qed

lemma group_entries_from:
  "foldl group_entry (s0, t0, a0) es = (s, t, a) \<Longrightarrow>
   snd ` set t \<subseteq> snd ` set t0 \<union> {v \<in> snd ` set es. \<exists>ps. v = JObj ps}
   \<and> set a \<subseteq> set a0 \<union> {(k, xs). (k, JArr xs) \<in> set es}"
proof (induction es arbitrary: s0 t0 a0)
  case Nil
  then show ?case by simp
next
  case (Cons e es)
  obtain k v where e: "e = (k, v)" by (cases e)
  obtain s1 t1 a1 where g: "group_entry (s0, t0, a0) (k, v) = (s1, t1, a1)"
    by (metis prod_cases3)
  have "foldl group_entry (s1, t1, a1) es = (s, t, a)"
    using Cons.prems e g by simp
  then have ih: "snd ` set t \<subseteq> snd ` set t1 \<union> {v \<in> snd ` set es. \<exists>ps. v = JObj ps}
     \<and> set a \<subseteq> set a1 \<union> {(k, xs). (k, JArr xs) \<in> set es}"
    by (rule Cons.IH)
  note one = group_entry_from[OF g]
  have "snd ` set t \<subseteq> snd ` set t0 \<union> {v \<in> snd ` set (e # es). \<exists>ps. v = JObj ps}"
    using conjunct1[OF ih] conjunct1[OF one] e by auto
  moreover have "set a \<subseteq> set a0 \<union> {(k, xs). (k, JArr xs) \<in> set (e # es)}"
    using conjunct2[OF ih] conjunct2[OF one] e by auto
  ultimately show ?case by (rule conjI)
qed

lemma size_obj_member: "(k, v) \<in> set ps \<Longrightarrow> size v < size (JObj ps)"
  by (induction ps) auto

lemma size_arr_member: "x \<in> set xs \<Longrightarrow> size x < size (JArr xs)"
  by (induction xs) auto

lemma js_entries_size:
  assumes "js_entries obj = Inr es" "(k, v) \<in> set es" "(\<exists>ps. v = JObj ps) \<or> (\<exists>xs. v = JArr xs)"
  shows "size v < size obj"
proof (cases obj)
  case (JObj ps)
  then show ?thesis using assms size_obj_member[of k v ps] by simp
next
  case (JArr xs)
  then have "v \<in> set xs" using assms by (auto simp: in_set_enumerate_eq) (metis nth_mem)+
  then show ?thesis using JArr size_arr_member by blast
qed (use assms in \<open>auto simp: in_set_enumerate_eq\<close>)

lemma tables_smaller:
  assumes "js_entries obj = Inr es" "group_entries es = (s, t, a)" "v \<in> snd ` set t"
  shows "size v < size obj"
proof -
  have "v \<in> snd ` set es" "\<exists>ps. v = JObj ps"
    using group_entries_from[of "[]" "[]" "[]" es s t a] assms(2,3) by (auto simp: group_entries_def)
  then obtain k where "(k, v) \<in> set es" by auto
  then show ?thesis using js_entries_size assms(1) \<open>\<exists>ps. v = JObj ps\<close> by blast
qed

lemma arrays_smaller:
  assumes "js_entries obj = Inr es" "group_entries es = (s, t, a)" "kx \<in> set a"
  shows "size (JArr (snd kx)) < size obj"
proof -
  have "(fst kx, JArr (snd kx)) \<in> set es"
    using group_entries_from[of "[]" "[]" "[]" es s t a] assms(2,3)
    by (auto simp: group_entries_def split: prod.splits)
  then show ?thesis using js_entries_size assms(1) by blast
qed

lemma Max_image_less:
  "xs \<noteq> [] \<Longrightarrow> (\<And>x. x \<in> set xs \<Longrightarrow> f x < n) \<Longrightarrow> Max (f ` set xs) < n"
  by (subst Max_less_iff) auto

lemma Max_image_tail: "xs \<noteq> [] \<Longrightarrow> Max (f ` set xs) \<le> Max (f ` set (x # xs))"
  by (auto intro: Max_mono)

lemma Max_image_head: "f x \<le> Max (f ` set (x # xs))"
  by simp

lemma measure_tables:
  assumes e: "js_entries obj = Inr es" "group_entries es = (s, t, a)"
  shows "(Inl (Inr t), Inl (Inl obj)) \<in> measures [toml_measure, toml_length]"
proof -
  have "t \<noteq> [] \<Longrightarrow> Max ((\<lambda>kv. size (snd kv)) ` set t) < size obj"
    using tables_smaller[OF e] by (intro Max_image_less) auto
  then have "toml_measure (Inl (Inr t)) < toml_measure (Inl (Inl obj))"
    by (cases "t = []") (auto simp: toml_measure_def simp del: Max_less_iff)
  then show ?thesis by (rule measures_less)
qed

lemma measure_arrays:
  assumes e: "js_entries obj = Inr es" "group_entries es = (s, t, a)"
  shows "(Inr (Inl a), Inl (Inl obj)) \<in> measures [toml_measure, toml_length]"
proof -
  have "a \<noteq> [] \<Longrightarrow> Max ((\<lambda>kx. size (JArr (snd kx))) ` set a) < size obj"
    using arrays_smaller[OF e] by (intro Max_image_less) auto
  then have "toml_measure (Inr (Inl a)) < toml_measure (Inl (Inl obj))"
    by (cases "a = []") (auto simp: toml_measure_def simp del: Max_less_iff)
  then show ?thesis by (rule measures_less)
qed

lemma measure_table_value:
  "(Inl (Inl value), Inl (Inr ((key, value) # ts))) \<in> measures [toml_measure, toml_length]"
  by (rule measures_less) (simp add: toml_measure_def less_Suc_eq_le)

lemma measure_tables_tail:
  "(Inl (Inr ts), Inl (Inr ((key, value) # ts))) \<in> measures [toml_measure, toml_length]"
proof (rule measures_lesseq)
  show "toml_measure (Inl (Inr ts)) \<le> toml_measure (Inl (Inr ((key, value) # ts)))"
    using Max_image_tail[of ts "\<lambda>kv. size (snd kv)" "(key, value)"]
    by (simp add: toml_measure_def del: Max_ge_iff)
qed (simp add: toml_length_def)

lemma measure_array_items:
  "(Inr (Inr (key, items)), Inr (Inl ((key, items) # as))) \<in> measures [toml_measure, toml_length]"
proof (rule measures_less)
  have h1: "items \<noteq> [] \<Longrightarrow> Max (size ` set items) < size (JArr items)"
    using size_arr_member by (intro Max_image_less) auto
  have h2: "size (JArr items) \<le> Max ((\<lambda>kx. size (JArr (snd kx))) ` set ((key, items) # as))"
    by (rule Max_ge) auto
  show "toml_measure (Inr (Inr (key, items))) < toml_measure (Inr (Inl ((key, items) # as)))"
  proof (cases "items = []")
    case False
    then have "Max (size ` set items) < Max ((\<lambda>kx. size (JArr (snd kx))) ` set ((key, items) # as))"
      using h1 h2 by (rule_tac less_le_trans) auto
    then show ?thesis using False unfolding toml_measure_def by (simp del: Max_less_iff Max_ge_iff)
  qed (simp add: toml_measure_def)
qed

lemma measure_arrays_tail:
  "(Inr (Inl as), Inr (Inl ((key, items) # as))) \<in> measures [toml_measure, toml_length]"
proof (rule measures_lesseq)
  show "toml_measure (Inr (Inl as)) \<le> toml_measure (Inr (Inl ((key, items) # as)))"
    using Max_image_tail[of as "\<lambda>kx. size (JArr (snd kx))" "(key, items)"]
    by (simp add: toml_measure_def del: Max_ge_iff)
qed (simp add: toml_length_def)

lemma measure_item:
  "(Inl (Inl item), Inr (Inr (key, item # items))) \<in> measures [toml_measure, toml_length]"
  by (rule measures_less) (simp add: toml_measure_def less_Suc_eq_le)

lemma measure_items_tail:
  "(Inr (Inr (key, items)), Inr (Inr (key, item # items))) \<in> measures [toml_measure, toml_length]"
proof (rule measures_lesseq)
  show "toml_measure (Inr (Inr (key, items))) \<le> toml_measure (Inr (Inr (key, item # items)))"
    using Max_image_tail[of items size item] by (simp add: toml_measure_def)
qed (simp add: toml_length_def)

termination toToml
  apply (relation "measures [toml_measure, toml_length]")
          apply simp
         apply (metis measure_tables)
        apply (metis measure_arrays)
       apply (rule measure_table_value)
      apply (rule measure_tables_tail)
     apply (rule measure_array_items)
    apply (rule measure_arrays_tail)
   apply (rule measure_item)
  apply (rule measure_items_tail)
  done

section \<open>Grouping is an order-preserving partition\<close>

lemma js_ordered_prefix: "js_ordered (xs @ ys) \<Longrightarrow> js_ordered xs"
  by (simp add: js_ordered_def sorted_wrt_append)

lemma js_ordered_filter: "js_ordered xs \<Longrightarrow> js_ordered (filter P xs)"
  unfolding js_ordered_def
  by (induction xs) (auto simp: sorted_wrt_filter)

lemma is_table_iff: "is_table v \<longleftrightarrow> (\<exists>ps. v = JObj ps)"
  by (cases v) (simp_all add: is_table_def)

lemma is_table_array_iff: "is_table_array v \<longleftrightarrow> (\<exists>x xs. v = JArr (x # xs) \<and> typeof_object x)"
  by (auto simp: is_table_array_def split: json.splits list.splits)

lemma own_set_snoc: "k \<noteq> ''__proto__'' \<Longrightarrow> js_ordered (ps @ [(k, v)]) \<Longrightarrow> own_set k v ps = ps @ [(k, v)]"
  by (simp add: own_set_def obj_define_snoc)

lemma group_entries_acc:
  "js_ordered (s @ filter (\<lambda>kv. is_simple (snd kv)) es) \<Longrightarrow>
   js_ordered (t @ filter (\<lambda>kv. is_table (snd kv)) es) \<Longrightarrow>
   ''__proto__'' \<notin> fst ` set es \<Longrightarrow>
   foldl group_entry (s, t, a) es =
     (s @ filter (\<lambda>kv. is_simple (snd kv)) es, t @ filter (\<lambda>kv. is_table (snd kv)) es,
      a @ map (\<lambda>kv. (fst kv, array_elems (snd kv))) (filter (\<lambda>kv. is_table_array (snd kv)) es))"
proof (induction es arbitrary: s t a)
  case Nil
  then show ?case by simp
next
  case (Cons e es)
  obtain k v where e: "e = (k, v)" by (cases e)
  have k: "k \<noteq> ''__proto__''" using Cons.prems(3) e by auto
  consider (tbl) "is_table v" | (arr) "is_table_array v" | (smp) "is_simple v"
    by (auto simp: is_simple_def)
  then show ?case
  proof cases
    case tbl
    then have ns: "\<not> is_simple v" "\<not> is_table_array v"
      by (auto simp: is_simple_def is_table_iff is_table_array_iff)
    have o: "js_ordered ((t @ [(k, v)]) @ filter (\<lambda>kv. is_table (snd kv)) es)"
      using Cons.prems(2) e tbl by simp
    have "group_entry (s, t, a) (k, v) = (s, t @ [(k, v)], a)"
      using tbl own_set_snoc[OF k js_ordered_prefix[OF o]] by (simp add: group_entry_cases is_table_iff)
    then show ?thesis
      using Cons.IH[of s "t @ [(k, v)]" a] Cons.prems o e tbl ns by simp
  next
    case arr
    then have ns: "\<not> is_simple v" "\<not> is_table v"
      by (auto simp: is_simple_def is_table_iff is_table_array_iff)
    have "group_entry (s, t, a) (k, v) = (s, t, a @ [(k, array_elems v)])"
      using arr by (auto simp: group_entry_cases is_table_array_iff array_elems_def)
    then show ?thesis
      using Cons.IH[of s t "a @ [(k, array_elems v)]"] Cons.prems e arr ns by simp
  next
    case smp
    then have ns: "\<not> is_table v" "\<not> is_table_array v"
      by (auto simp: is_simple_def)
    have o: "js_ordered ((s @ [(k, v)]) @ filter (\<lambda>kv. is_simple (snd kv)) es)"
      using Cons.prems(1) e smp by simp
    have "group_entry (s, t, a) (k, v) = (s @ [(k, v)], t, a)"
      using ns own_set_snoc[OF k js_ordered_prefix[OF o]]
      by (simp add: group_entry_cases is_table_iff is_table_array_iff)
    then show ?thesis
      using Cons.IH[of "s @ [(k, v)]" t a] Cons.prems o e smp ns by simp
  qed
qed

section \<open>When the serializer returns\<close>

lemma entries_null_free:
  "js_entries obj = Inr es \<Longrightarrow> \<not> null_in_array obj \<Longrightarrow> (k, v) \<in> set es \<Longrightarrow> \<not> null_in_array v"
  by (cases obj) (auto simp: in_set_enumerate_eq)

lemma toToml_total_aux:
  shows "obj \<noteq> JNull \<Longrightarrow> \<not> null_in_array obj \<Longrightarrow> \<exists>s. toToml obj = Inr s"
    and "\<forall>kv \<in> set ts. snd kv \<noteq> JNull \<and> \<not> null_in_array (snd kv) \<Longrightarrow> \<exists>s. emit_tables ts = Inr s"
    and "\<forall>kx \<in> set as. \<not> null_in_array (JArr (snd kx)) \<Longrightarrow> \<exists>s. emit_arrays as = Inr s"
    and "\<not> null_in_array (JArr items) \<Longrightarrow> \<exists>s. emit_items key items = Inr s"
proof (induction obj and ts and as and key items rule: toToml_emit_tables_emit_arrays_emit_items.induct)
  case (1 obj)
  note c = 1
  obtain es where e: "js_entries obj = Inr es" using c(3) by (cases obj) auto
  obtain S T A where g: "group_entries es = (S, T, A)" by (cases "group_entries es") auto
  have src: "snd ` set T \<subseteq> {v \<in> snd ` set es. \<exists>ps. v = JObj ps}"
    "set A \<subseteq> {(k, xs). (k, JArr xs) \<in> set es}"
    using group_entries_from[of "[]" "[]" "[]" es S T A] g by (simp_all add: group_entries_def)
  have nf: "\<not> null_in_array v" if "(k, v) \<in> set es" for k v
    using entries_null_free[OF e] c(4) that by blast
  have "\<forall>kv \<in> set T. snd kv \<noteq> JNull \<and> \<not> null_in_array (snd kv)"
    using src(1) nf by fastforce
  then obtain t where t: "emit_tables T = Inr t" using c(1)[OF e g[symmetric] refl] by blast
  have "\<forall>kx \<in> set A. \<not> null_in_array (JArr (snd kx))"
    using src(2) nf by fastforce
  then obtain a where a: "emit_arrays A = Inr a" using c(2)[OF e g[symmetric] refl] by blast
  show ?case using e g t a by simp
qed (auto simp: sbind_def split: sum.splits)

section \<open>When the serializer throws\<close>

lemma toToml_error_TypeError:
  shows "toToml obj = Inl e \<Longrightarrow> e = TypeError"
    and "emit_tables ts = Inl e \<Longrightarrow> e = TypeError"
    and "emit_arrays as = Inl e \<Longrightarrow> e = TypeError"
    and "emit_items key items = Inl e \<Longrightarrow> e = TypeError"
proof (induction obj and ts and as and key items arbitrary: e and e and e and e
    rule: toToml_emit_tables_emit_arrays_emit_items.induct)
  case (1 obj)
  show ?case
  proof (cases "js_entries obj")
    case (Inl e')
    then show ?thesis using 1(3) by (cases obj) auto
  next
    case (Inr es)
    obtain S T A where g: "group_entries es = (S, T, A)" by (cases "group_entries es") auto
    show ?thesis using 1(3) 1(1)[OF Inr g[symmetric] refl] 1(2)[OF Inr g[symmetric] refl] Inr g
      by (auto simp: sbind_eq_Inl)
  qed
qed (auto simp: sbind_eq_Inl)

lemma group_entries_keeps_array:
  "(k, xs) \<in> set a0 \<or> ((k, v) \<in> set es \<and> is_table_array v \<and> xs = array_elems v) \<Longrightarrow>
   (k, xs) \<in> set (snd (snd (foldl group_entry (s0, t0, a0) es)))"
proof (induction es arbitrary: s0 t0 a0)
  case Nil
  then show ?case by simp
next
  case (Cons e es)
  obtain k' v' where e: "e = (k', v')" by (cases e)
  obtain s1 t1 a1 where g: "group_entry (s0, t0, a0) (k', v') = (s1, t1, a1)"
    by (metis prod_cases3)
  have "set a0 \<subseteq> set a1"
    using g by (auto simp: group_entry_cases split: if_splits)
  moreover have "is_table_array v' \<Longrightarrow> (k', array_elems v') \<in> set a1"
    using g by (auto simp: group_entry_cases is_table_array_iff array_elems_def)
  ultimately have "(k, xs) \<in> set a1 \<or> ((k, v) \<in> set es \<and> is_table_array v \<and> xs = array_elems v)"
    using Cons.prems e by auto
  then show ?case using Cons.IH g e by simp
qed

lemma emit_items_null: "JNull \<in> set items \<Longrightarrow> \<exists>e. emit_items key items = Inl e"
  by (induction items) (auto simp: sbind_def split: sum.splits)

lemma emit_arrays_null: "(k, items) \<in> set as \<Longrightarrow> JNull \<in> set items \<Longrightarrow> \<exists>e. emit_arrays as = Inl e"
proof (induction as)
  case (Cons kx as)
  then show ?case using emit_items_null[of items k]
    by (cases kx) (auto simp: sbind_def split: sum.splits)
qed simp

text \<open>
  C4: \<open>toToml\<close> returns a text for every object in which no array holds \<open>null\<close>,
  at any depth: the only exception it can raise comes from \<open>Object.entries(null)\<close>
  on an element of a table array.
\<close>

theorem toToml_total: "obj \<noteq> JNull \<Longrightarrow> \<not> null_in_array obj \<Longrightarrow> \<exists>s. toToml obj = Inr s"
  by (rule toToml_total_aux(1))

theorem toToml_total_witness:
  "JObj [(''db'', JObj [(''port'', JNum 5432 0)]), (''svc'', JArr [JObj [(''n'', JStr ''a'')]])] \<noteq> JNull \<and>
   \<not> null_in_array (JObj [(''db'', JObj [(''port'', JNum 5432 0)]), (''svc'', JArr [JObj [(''n'', JStr ''a'')]])]) \<and>
   (\<exists>s. toToml (JObj [(''db'', JObj [(''port'', JNum 5432 0)]), (''svc'', JArr [JObj [(''n'', JStr ''a'')]])]) = Inr s)"
  using toToml_total[of "JObj [(''db'', JObj [(''port'', JNum 5432 0)]), (''svc'', JArr [JObj [(''n'', JStr ''a'')]])]"]
  by simp

text \<open>
  C16: contrary to the specification's "never fails", \<open>toToml\<close> throws a
  \<open>TypeError\<close> on every object with an entry that is a table array (its first
  element is an object, array or \<open>null\<close>) holding a \<open>null\<close> element: the loop of
  lines 47--52 calls \<open>toToml(null)\<close>, whose \<open>Object.entries(null)\<close> throws, and
  every exception of \<open>toToml\<close> is that \<open>TypeError\<close>.
\<close>

theorem toToml_null_item:
  "(k, v) \<in> set ps \<Longrightarrow> is_table_array v \<Longrightarrow> JNull \<in> set (array_elems v) \<Longrightarrow>
   toToml (JObj ps) = Inl TypeError"
proof -
  assume kv: "(k, v) \<in> set ps" and ta: "is_table_array v" and n: "JNull \<in> set (array_elems v)"
  obtain S T A where g: "group_entries ps = (S, T, A)" by (cases "group_entries ps") auto
  have "(k, array_elems v) \<in> set A"
    using group_entries_keeps_array[of k "array_elems v" "[]" v ps "[]" "[]"] kv ta g
    by (simp add: group_entries_def)
  then obtain e where a: "emit_arrays A = Inl e" using emit_arrays_null n by blast
  have "\<exists>e. toToml (JObj ps) = Inl e"
    using g a by (cases "emit_tables T") auto
  then show ?thesis using toToml_error_TypeError(1) by blast
qed

theorem toToml_null_item_witness:
  "(''servers'', JArr [JObj [(''name'', JStr ''a'')], JNull]) \<in> set [(''servers'', JArr [JObj [(''name'', JStr ''a'')], JNull])] \<and>
   is_table_array (JArr [JObj [(''name'', JStr ''a'')], JNull]) \<and>
   JNull \<in> set (array_elems (JArr [JObj [(''name'', JStr ''a'')], JNull])) \<and>
   toToml (JObj [(''servers'', JArr [JObj [(''name'', JStr ''a'')], JNull])]) = Inl TypeError"
  using toToml_null_item[of "''servers''" "JArr [JObj [(''name'', JStr ''a'')], JNull]"
      "[(''servers'', JArr [JObj [(''name'', JStr ''a'')], JNull])]"]
  by (simp add: is_table_array_def typeof_object_def array_elems_def)

text \<open>
  C15: the loop of lines 22--30 computes the specification's partition: on the
  entries of an object (distinct keys in JavaScript order, no \<open>__proto__\<close> key)
  it returns the scalar and inline-array entries, the table entries and the table
  arrays, each group in the order of the object.
\<close>

theorem group_entries_partition:
  "js_ordered es \<Longrightarrow> ''__proto__'' \<notin> fst ` set es \<Longrightarrow> group_entries es = group_ref es"
  using group_entries_acc[of "[]" es "[]" "[]"]
  by (simp add: group_entries_def group_ref_def js_ordered_filter)

theorem group_entries_partition_witness:
  "js_ordered [(''1'', JObj []), (''a'', JNum 1 0), (''b'', JArr [JObj []]), (''c'', JArr [])] \<and>
   ''__proto__'' \<notin> fst ` set [(''1'', JObj []), (''a'', JNum 1 0), (''b'', JArr [JObj []]), (''c'', JArr [])] \<and>
   group_entries [(''1'', JObj []), (''a'', JNum 1 0), (''b'', JArr [JObj []]), (''c'', JArr [])] =
     ([(''a'', JNum 1 0), (''c'', JArr [])], [(''1'', JObj [])], [(''b'', [JObj []])])"
  using group_entries_partition[of "[(''1'', JObj []), (''a'', JNum 1 0), (''b'', JArr [JObj []]), (''c'', JArr [])]"]
  by (simp add: js_ordered_def key_before_def is_array_index_def canon_digits_def is_digit_def
      digits_val_def digit_val_def group_ref_def is_simple_def is_table_def is_table_array_def
      typeof_object_def array_elems_def)

end
