(* ===== verification/TomlParse.thy ===== *)
theory TomlParse
  imports JsonText
begin

text \<open>
  The parser \<open>parseToml\<close> of \<open>ConfigTab.tsx\<close> (lines 57--101). Its local
  variables are the record \<open>parse_state\<close>: the document \<open>result\<close>, the section
  \<open>currentSection\<close> that assignments write to, \<open>currentPath\<close> and
  \<open>currentArray\<close>. \<open>currentSection\<close> is a reference into \<open>result\<close>; the model
  keeps it as the path of keys from \<open>result\<close> to the referenced value, which
  denotes the same object because nothing above the section changes between two
  header lines. The loop body is \<open>parse_line\<close>, one branch per header kind
  (\<open>array_header\<close>, \<open>section_header\<close> with its \<open>walk\<close>) and the assignment
  with its \<open>try\<close>/\<open>catch\<close> (\<open>assign_line\<close>); \<open>parse_lines\<close> is the
  \<open>for\<close> loop, and an exception leaves it as \<open>Inl\<close>.
\<close>

section \<open>Paths into the document\<close>

text \<open>Reading the value a path of keys reaches: own properties and array elements.\<close>

fun get_in :: "json \<Rightarrow> string list \<Rightarrow> json option" where
  "get_in v [] = Some v"
| "get_in (JObj ps) (k # p) = (case map_of ps k of Some v \<Rightarrow> get_in v p | None \<Rightarrow> None)"
| "get_in (JArr xs) (k # p) =
     (if is_array_index k \<and> digits_val k < length xs then get_in (xs ! digits_val k) p else None)"
| "get_in _ (k # p) = None"

text \<open>Changing the value a path reaches with \<open>f\<close>, which may throw.\<close>

fun upd_in :: "json \<Rightarrow> string list \<Rightarrow> (json \<Rightarrow> js_error + json) \<Rightarrow> js_error + json" where
  "upd_in v [] f = f v"
| "upd_in (JObj ps) (k # p) f =
     (case map_of ps k of
        Some v \<Rightarrow> sbind (upd_in v p f) (\<lambda>v'. Inr (JObj (overwrite k v' ps)))
      | None \<Rightarrow> Inl Unmodelled)"
| "upd_in (JArr xs) (k # p) f =
     (if is_array_index k \<and> digits_val k < length xs
      then sbind (upd_in (xs ! digits_val k) p f) (\<lambda>v'. Inr (JArr (xs[digits_val k := v'])))
      else Inl Unmodelled)"
| "upd_in _ (k # p) f = Inl Unmodelled"

section \<open>The parser state\<close>

record parse_state =
  result :: json
  currentSection :: "string list"
  currentPath :: "string list"
  currentArray :: "string list option"

definition init_state :: parse_state where
  "init_state = \<lparr>result = JObj [], currentSection = [], currentPath = [], currentArray = None\<rparr>"

section \<open>Assignments\<close>

text \<open>
  \<open>target[key] = v\<close> in strict mode: an object takes the property; \<open>null\<close>
  throws; a primitive throws, except for \<open>__proto__\<close>, whose inherited setter
  ignores a primitive receiver.
\<close>

definition assign :: "string \<Rightarrow> json \<Rightarrow> json \<Rightarrow> js_error + json" where
  "assign key v target =
     (case target of
        JObj ps \<Rightarrow> sbind (obj_set key v ps) (\<lambda>ps'. Inr (JObj ps'))
      | JArr _ \<Rightarrow> Inl Unmodelled
      | JNull \<Rightarrow> Inl TypeError
      | _ \<Rightarrow> if key = ''__proto__'' then Inr target else Inl TypeError)"

text \<open>\<open>currentSection[key] = v\<close>.\<close>

definition set_current :: "parse_state \<Rightarrow> string \<Rightarrow> json \<Rightarrow> js_error + parse_state" where
  "set_current st key v =
     sbind (upd_in (result st) (currentSection st) (assign key v)) (\<lambda>r. Inr (st\<lparr>result := r\<rparr>))"

text \<open>\<open>value.replace(/^"|"$/g, '')\<close>: one leading and one trailing double quote.\<close>

definition strip_quotes :: "string \<Rightarrow> string" where
  "strip_quotes s =
     (let s1 = (if s \<noteq> [] \<and> hd s = dquote then tl s else s)
      in if s1 \<noteq> [] \<and> last s1 = dquote then butlast s1 else s1)"

text \<open>
  Lines 89--96. \<open>JSON.parse\<close> throws a \<open>SyntaxError\<close> or the write throws a
  \<open>TypeError\<close>: both are caught and the raw text is written instead, and an exception
  of that second write leaves the parser.
\<close>

definition assign_line :: "parse_state \<Rightarrow> string \<Rightarrow> js_error + parse_state" where
  "assign_line st line =
     (case split_on (CHR ''='') line of
        [] \<Rightarrow> Inr st
      | key # valueParts \<Rightarrow>
          (let value = trim (join_with (CHR ''='') valueParts);
               fallback = JStr (strip_quotes value)
           in case json_parse value of
                JOk v \<Rightarrow>
                  (case set_current st (trim key) v of
                     Inl e \<Rightarrow> if e = TypeError then set_current st (trim key) fallback else Inl e
                   | Inr st' \<Rightarrow> Inr st')
              | JSyntaxError \<Rightarrow> set_current st (trim key) fallback
              | JUnsupported \<Rightarrow> Inl Unmodelled))"

section \<open>Section headers\<close>

text \<open>
  Lines 68--75: \<open>[[name]]\<close> makes \<open>result[name]\<close> an array unless it is one,
  pushes a new object and makes it the current section. A push beyond the largest
  array length throws \<open>RangeError\<close>.
\<close>

definition array_header :: "parse_state \<Rightarrow> string \<Rightarrow> js_error + parse_state" where
  "array_header st arrayName =
     (case result st of
        JObj ps \<Rightarrow>
          sbind (case map_of ps arrayName of
                   Some (JArr xs) \<Rightarrow> Inr ps
                 | _ \<Rightarrow> obj_set arrayName (JArr []) ps) (\<lambda>ps1.
          (case map_of ps1 arrayName of
             Some (JArr xs) \<Rightarrow>
               if length xs < 4294967295 then
                 Inr (st\<lparr>result := JObj (overwrite arrayName (JArr (xs @ [JObj []])) ps1),
                         currentSection := [arrayName, dec_digits (length xs)],
                         currentArray := Some [arrayName, dec_digits (length xs)]\<rparr>)
               else Inl RangeError
           | _ \<Rightarrow> Inl Unmodelled))
      | _ \<Rightarrow> Inl Unmodelled)"

text \<open>
  Lines 82--87: for each part, \<open>part in currentSection\<close>, creating \<open>{}\<close> when it
  is absent, then descending. \<open>in\<close> also finds the names inherited from
  \<open>Object.prototype\<close>, and descending into one of those leaves the document; on a
  primitive or \<open>null\<close> \<open>in\<close> throws.
\<close>

fun walk :: "json \<Rightarrow> string list \<Rightarrow> string list \<Rightarrow> js_error + json \<times> string list" where
  "walk root cur [] = Inr (root, cur)"
| "walk root cur (part # parts) =
     (case get_in root cur of
        Some (JObj ps) \<Rightarrow>
          if has_property part ps then
            (if part \<in> set (map fst ps) then walk root (cur @ [part]) parts else Inl Unmodelled)
          else sbind (upd_in root cur (\<lambda>_. Inr (JObj (obj_define part (JObj []) ps))))
                 (\<lambda>root'. walk root' (cur @ [part]) parts)
      | Some (JArr xs) \<Rightarrow>
          if is_array_index part \<and> digits_val part < length xs then walk root (cur @ [part]) parts
          else Inl Unmodelled
      | Some _ \<Rightarrow> Inl TypeError
      | None \<Rightarrow> Inl Unmodelled)"

definition section_header :: "parse_state \<Rightarrow> string \<Rightarrow> js_error + parse_state" where
  "section_header st section =
     (let path = split_on (CHR ''.'') section
      in sbind (walk (result st) [] path) (\<lambda>(r, cur).
           Inr (st\<lparr>result := r, currentSection := cur, currentPath := path, currentArray := None\<rparr>)))"

section \<open>The loop\<close>

definition parse_line :: "parse_state \<Rightarrow> string \<Rightarrow> js_error + parse_state" where
  "parse_line st line0 =
     (let line = trim line0 in
      if line = [] \<or> starts_with line ''#'' then Inr st
      else if starts_with line ''[['' \<and> ends_with line '']]'' then array_header st (slice line 2 2)
      else if starts_with line ''['' \<and> ends_with line '']'' then section_header st (slice line 1 1)
      else if CHR ''='' \<in> set line then assign_line st line
      else Inr st)"

fun parse_lines :: "parse_state \<Rightarrow> string list \<Rightarrow> js_error + parse_state" where
  "parse_lines st [] = Inr st"
| "parse_lines st (l # ls) = sbind (parse_line st l) (\<lambda>st'. parse_lines st' ls)"

definition parseToml :: "string \<Rightarrow> js_error + json" where
  "parseToml text =
     sbind (parse_lines init_state (split_on (CHR ''\<newline>'') text)) (\<lambda>st. Inr (result st))"

end
