(* ===== verification/TomlRoundtrip.thy ===== *)
theory TomlRoundtrip
  imports TomlSerialize TomlParse "HOL-Library.Code_Target_Nat"
begin

text \<open>
  What \<open>parseToml\<close> makes of the text \<open>toToml\<close> prints. The documents the
  codec carries faithfully are described by \<open>doc_ok\<close>: keys that survive a line
  (no blank, \<open>=\<close>, \<open>.\<close>, \<open>[\<close> or \<open>#\<close>, not a name of \<open>Object.prototype\<close>),
  strings without a backslash or a line break, and tables and table-array elements
  that hold only scalars and inline arrays, since headers are printed without the
  path of the enclosing table. The last section proves what happens outside these
  documents, for whole classes of input: the parser's exceptions, its text fallback,
  and what becomes of backslashes and nested tables.
\<close>

section \<open>Documents the codec carries\<close>

definition key_ok :: "string \<Rightarrow> bool" where
  "key_ok k \<longleftrightarrow>
     k \<noteq> [] \<and> (\<forall>c \<in> set k. \<not> is_js_ws c \<and> c \<notin> set ''=.[#'') \<and> k \<notin> set proto_names"

fun scalar_ok :: "json \<Rightarrow> bool" where
  "scalar_ok (JStr s) \<longleftrightarrow> bslash \<notin> set s \<and> CHR ''\<newline>'' \<notin> set s"
| "scalar_ok (JObj ps) \<longleftrightarrow> False"
| "scalar_ok v \<longleftrightarrow> wf_json v \<and> \<not> is_table_array v"

definition section_ok :: "props \<Rightarrow> bool" where
  "section_ok qs \<longleftrightarrow> js_ordered qs \<and> (\<forall>kv \<in> set qs. key_ok (fst kv) \<and> scalar_ok (snd kv))"

fun item_ok :: "json \<Rightarrow> bool" where
  "item_ok (JObj qs) \<longleftrightarrow> section_ok qs"
| "item_ok _ \<longleftrightarrow> False"

definition entry_ok :: "json \<Rightarrow> bool" where
  "entry_ok v \<longleftrightarrow>
     (case v of
        JObj qs \<Rightarrow> section_ok qs
      | JArr xs \<Rightarrow>
          if is_table_array v
          then length xs \<le> 4294967295 \<and> (\<forall>x \<in> set xs. item_ok x)
          else scalar_ok v
      | _ \<Rightarrow> scalar_ok v)"

definition doc_ok :: "props \<Rightarrow> bool" where
  "doc_ok ps \<longleftrightarrow> js_ordered ps \<and> (\<forall>kv \<in> set ps. key_ok (fst kv) \<and> entry_ok (snd kv))"

text \<open>The entries in the order \<open>toToml\<close> prints them: scalars, tables, table arrays.\<close>

definition regroup :: "props \<Rightarrow> props" where
  "regroup ps =
     (case group_ref ps of (s, t, a) \<Rightarrow> s @ t @ map (\<lambda>kx. (fst kx, JArr (snd kx))) a)"

section \<open>Lines of the printed text\<close>

abbreviation nl :: char where "nl \<equiv> CHR ''\<newline>''"


definition value_text :: "json \<Rightarrow> string" where
  "value_text v =
     (case v of JArr _ \<Rightarrow> json_stringify v | JStr s \<Rightarrow> dquote # s @ [dquote] | _ \<Rightarrow> js_template v)"

definition assign_text :: "string \<times> json \<Rightarrow> string" where
  "assign_text kv = fst kv @ '' = '' @ value_text (snd kv)"

definition obj_props :: "json \<Rightarrow> props" where
  "obj_props v = (case v of JObj qs \<Rightarrow> qs | _ \<Rightarrow> [])"

definition table_lines :: "string \<times> json \<Rightarrow> string list" where
  "table_lines kv = [[], CHR ''['' # fst kv @ '']''] @ map assign_text (obj_props (snd kv))"

definition item_lines :: "string \<Rightarrow> json \<Rightarrow> string list" where
  "item_lines k x = [[], ''[['' @ k @ '']]''] @ map assign_text (obj_props x)"

definition array_lines :: "string \<times> json list \<Rightarrow> string list" where
  "array_lines kx = concat (map (item_lines (fst kx)) (snd kx))"

section \<open>Replacing the value at a path\<close>

fun put_in :: "json \<Rightarrow> string list \<Rightarrow> json \<Rightarrow> json" where
  "put_in v [] x = x"
| "put_in (JObj ps) (k # p) x =
     (case map_of ps k of Some v \<Rightarrow> JObj (overwrite k (put_in v p x) ps) | None \<Rightarrow> JObj ps)"
| "put_in (JArr xs) (k # p) x =
     (if is_array_index k \<and> digits_val k < length xs
      then JArr (xs[digits_val k := put_in (xs ! digits_val k) p x]) else JArr xs)"
| "put_in v (k # p) x = v"

section \<open>Lemmas on paths\<close>

lemma map_of_overwrite_same: "map_of ps k = Some v \<Longrightarrow> map_of (overwrite k w ps) k = Some w"
  using map_of_SomeD[of ps k v] by (force simp: map_of_overwrite)

lemma overwrite_overwrite: "overwrite k w (overwrite k z ps) = overwrite k w ps"
  by (induction ps) auto

lemma upd_in_put_in:
  "get_in v p = Some y \<Longrightarrow> upd_in v p f = sbind (f y) (\<lambda>z. Inr (put_in v p z))"
proof (induction v p arbitrary: y rule: get_in.induct)
  case (2 ps k p)
  then show ?case by (cases "f y") (auto split: option.splits)
next
  case (3 xs k p)
  then show ?case by (cases "f y") (auto split: if_splits)
qed simp_all

lemma get_in_put_in:
  "get_in v p = Some y \<Longrightarrow> get_in (put_in v p z) p = Some z"
proof (induction v p arbitrary: y rule: get_in.induct)
  case (2 ps k p)
  then show ?case by (auto simp: map_of_overwrite_same split: option.splits)
qed (auto split: if_splits)

lemma put_in_put_in:
  "get_in v p = Some y \<Longrightarrow> put_in (put_in v p z) p w = put_in v p w"
proof (induction v p arbitrary: y rule: get_in.induct)
  case (2 ps k p)
  then show ?case
    by (auto simp: map_of_overwrite_same overwrite_overwrite split: option.splits)
qed (auto split: if_splits)

section \<open>Printed values: no line break, no blank at either end\<close>

lemma nl_of_char: "c = nl \<longleftrightarrow> (of_char c :: nat) = 10"
proof -
  have "(of_char nl :: nat) = 10" by simp
  then show ?thesis using of_char_eq_iff[of c nl] by (metis (mono_tags))
qed

lemma in_set_tlD: "x \<in> set (tl xs) \<Longrightarrow> x \<in> set xs"
  by (cases xs) auto

lemma hex_digit_code: "d < 16 \<Longrightarrow> 48 \<le> (of_char (hex_digit d) :: nat)"
  by (auto simp: hex_digit_def)

lemma hex_digit_not_nl [simp]: "d < 16 \<Longrightarrow> hex_digit d \<noteq> nl \<and> nl \<noteq> hex_digit d"
  using hex_digit_code[of d] nl_of_char[of "hex_digit d"] by auto

lemma set_join_with: "set (join_with c ws) \<subseteq> insert c (\<Union>w \<in> set ws. set w)"
  by (induction c ws rule: join_with.induct) auto

lemma nl_escape_char: "nl \<notin> set (json_escape_char c)"
  by (auto simp: json_escape_char_def Let_def nl_of_char)

lemma num_chars: "set (num_to_string m e) \<subseteq> Collect is_digit \<union> set ''-.e+''"
proof -
  have d: "\<forall>x \<in> set (dec_digits n). is_digit x" for n
    using list_all_dec_digits[of n] by (simp add: list_all_iff)
  have h: "is_digit (hd (dec_digits n))" for n
    using d[of n] hd_in_set[OF dec_digits_not_Nil, of n] by blast
  have "set (pos_num_str s e) \<subseteq> Collect is_digit \<union> set ''-.e+''" for s e
    using d[of s] h[of s] d[of "nat \<bar>e + int (length (dec_digits s)) - 1\<bar>"]
    by (auto simp: pos_num_str_def Let_def dest!: in_set_dropD in_set_takeD in_set_tlD)
  then show ?thesis by (auto simp: num_to_string_def)
qed

lemma nl_num: "nl \<notin> set (num_to_string m e)"
  using num_chars[of m e] by (auto simp: is_digit_def)

lemma nl_stringify: "nl \<notin> set (json_stringify v)"
proof (induction v rule: json_stringify.induct)
  case (5 xs)
  then show ?case using set_join_with[of "CHR '',''" "map json_stringify xs"] by auto
next
  case (6 ps)
  then show ?case
    using set_join_with[of "CHR '',''" "map (\<lambda>(k, v). json_quote k @ CHR '':'' # json_stringify v) ps"]
    by (fastforce simp: json_quote_def nl_escape_char)
qed (auto simp: nl_num json_quote_def nl_escape_char)

lemma not_ws_code: "(of_char c :: nat) \<notin> {9, 10, 11, 12, 13, 32, 160} \<Longrightarrow> \<not> is_js_ws c"
  by (simp add: is_js_ws_def)

lemma num_not_ws: "c \<in> set (num_to_string m e) \<Longrightarrow> \<not> is_js_ws c"
  using num_chars[of m e] by (auto simp: is_digit_def is_js_ws_def)

lemma value_text_shape:
  assumes "scalar_ok v"
  shows "value_text v \<noteq> [] \<and> \<not> is_js_ws (hd (value_text v)) \<and> \<not> is_js_ws (last (value_text v))
    \<and> nl \<notin> set (value_text v)"
proof (cases v)
  case (JNum m e)
  then have ne: "num_to_string m e \<noteq> []" using assms num_to_string_hd by simp
  then show ?thesis using JNum nl_num num_not_ws[OF hd_in_set[OF ne]] num_not_ws[OF last_in_set[OF ne]]
    by (simp add: value_text_def)
next
  case (JArr xs)
  then show ?thesis using nl_stringify[of v]
    by (simp add: value_text_def is_js_ws_def)
qed (use assms in \<open>auto simp: value_text_def is_js_ws_def\<close>)

lemma value_text_json:
  "scalar_ok v \<Longrightarrow> \<forall>s. v \<noteq> JStr s \<Longrightarrow> value_text v = json_stringify v"
  by (cases v) (simp_all add: value_text_def)

lemma join_with_Cons_Cons: "join_with c ((x # w) # ws) = x # join_with c (w # ws)"
  by (cases ws) simp_all

lemma join_split: "join_with c (split_on c s) = s"
proof (induction s)
  case (Cons x xs)
  then show ?case
    using split_on_not_Nil[of c xs]
    by (cases "split_on c xs") (auto simp: Let_def join_with_Cons_Cons)
qed simp

section \<open>Reading a quoted string back\<close>

lemma lex_str_no_escape:
  "lex_str s = Some (t, u, r) \<Longrightarrow> bslash \<notin> set s \<Longrightarrow> s = t @ dquote # r \<and> \<not> u"
proof (induction s arbitrary: t u r rule: lex_str.induct)
  case (2 c s)
  show ?case
  proof (cases "c = dquote")
    case False
    have c: "c \<noteq> bslash" "\<not> (of_char c :: nat) < 32"
      using "2.prems" False by (auto split: if_splits)
    then obtain t' where "lex_str s = Some (t', u, r)" "t = c # t'"
      using "2.prems" False by (auto split: if_splits)
    then show ?thesis using "2.IH"(3)[OF False c] "2.prems" by auto
  qed (use "2.prems" in auto)
qed simp

lemma json_step_quoted:
  "json_step (Suc n) InValue (dquote # t) =
     (case lex_str t of None \<Rightarrow> Fail | Some (t', u, r') \<Rightarrow> Done (JStr t', u, r'))"
  by (simp add: skip_ws_def is_json_ws_def)

lemma json_parse_quoted_def:
  "json_parse (dquote # t) =
     (case lex_str t of None \<Rightarrow> JSyntaxError
      | Some (t', u, r') \<Rightarrow> if skip_ws r' = [] then (if u then JUnsupported else JOk (JStr t')) else JSyntaxError)"
  unfolding json_parse_def length_Cons json_step_quoted by (simp split: option.splits)

lemma json_parse_quoted:
  assumes "bslash \<notin> set s"
  shows "json_parse (dquote # s @ [dquote]) = JOk (JStr s) \<or> json_parse (dquote # s @ [dquote]) = JSyntaxError"
proof (cases "lex_str (s @ [dquote])")
  case None
  then show ?thesis by (simp add: json_parse_quoted_def)
next
  case (Some x)
  obtain t u r where x: "x = (t, u, r)" by (cases x)
  have eq: "s @ [dquote] = t @ dquote # r" and nu: "\<not> u"
    using lex_str_no_escape[of "s @ [dquote]" t u r] Some x assms by auto
  show ?thesis
  proof (cases "r = []")
    case True
    then have "t = s" using eq by simp
    then show ?thesis using Some x nu True by (simp add: json_parse_quoted_def skip_ws_def)
  next
    case False
    have "last (t @ dquote # r) = last r" using False by simp
    then have "last r = dquote" using eq by (metis last_snoc)
    then have "\<not> is_json_ws (last r)" by (simp add: is_json_ws_def)
    then have "skip_ws r \<noteq> []"
      using last_in_set[OF False] unfolding skip_ws_def dropWhile_eq_Nil_conv by blast
    then show ?thesis using Some x by (simp add: json_parse_quoted_def)
  qed
qed

lemma strip_quotes_quoted [simp]: "strip_quotes (dquote # s @ [dquote]) = s"
  by (simp add: strip_quotes_def)

section \<open>One line of the printed text\<close>

lemma set_current_obj:
  "get_in (result st) (currentSection st) = Some (JObj Q) \<Longrightarrow> k \<noteq> ''__proto__'' \<Longrightarrow>
   set_current st k v = Inr (st\<lparr>result := put_in (result st) (currentSection st) (JObj (obj_define k v Q))\<rparr>)"
  by (simp add: set_current_def upd_in_put_in assign_def obj_set_def)

lemma key_ok_facts:
  assumes "key_ok k"
  shows "k \<noteq> []" "\<not> is_js_ws (hd k)" "\<not> is_js_ws (last k)" "hd k \<noteq> CHR ''#''" "hd k \<noteq> CHR ''[''"
    "CHR ''='' \<notin> set k" "CHR ''.'' \<notin> set k" "nl \<notin> set k" "k \<noteq> ''__proto__''" "k \<notin> set proto_names"
proof -
  have ne: "k \<noteq> []" and all: "\<forall>c \<in> set k. \<not> is_js_ws c \<and> c \<notin> set ''=.[#''"
    and np: "k \<notin> set proto_names"
    using assms by (simp_all add: key_ok_def)
  have p: "''__proto__'' \<in> set proto_names" by (simp add: proto_names_def)
  show "k \<noteq> []" "k \<notin> set proto_names" by (fact ne, fact np)
  show "\<not> is_js_ws (hd k)" "hd k \<noteq> CHR ''#''" "hd k \<noteq> CHR ''[''"
    using all hd_in_set[OF ne] by auto
  show "\<not> is_js_ws (last k)" using all last_in_set[OF ne] by auto
  show "CHR ''='' \<notin> set k" "CHR ''.'' \<notin> set k" using all by auto
  have "is_js_ws nl" by (simp add: is_js_ws_def)
  then show "nl \<notin> set k" using all by blast
  show "k \<noteq> ''__proto__''" using np p by auto
qed

lemma trim_key_space: "key_ok k \<Longrightarrow> trim (k @ '' '') = k"
  using key_ok_facts[of k] trim_snoc_ws[of "CHR '' ''" k] trim_id[of k] by (simp add: is_js_ws_def)

lemma trim_space_value: "scalar_ok v \<Longrightarrow> trim (CHR '' '' # value_text v) = value_text v"
  using value_text_shape[of v] trim_Cons_ws[of "CHR '' ''"] trim_id[of "value_text v"]
  by (simp add: is_js_ws_def)

lemma assign_text_line:
  assumes "key_ok k" "scalar_ok v"
  shows "trim (assign_text (k, v)) = assign_text (k, v)"
    and "split_on (CHR ''='') (assign_text (k, v)) = (k @ '' '') # split_on (CHR ''='') (CHR '' '' # value_text v)"
proof -
  show "trim (assign_text (k, v)) = assign_text (k, v)"
    using key_ok_facts[OF assms(1)] value_text_shape[OF assms(2)]
    by (intro trim_id) (simp add: assign_text_def)
  have eq: "assign_text (k, v) = (k @ '' '') @ CHR ''='' # (CHR '' '' # value_text v)"
    by (simp add: assign_text_def)
  have "CHR ''='' \<notin> set (k @ '' '')" using key_ok_facts[OF assms(1)] by simp
  then show "split_on (CHR ''='') (assign_text (k, v)) = (k @ '' '') # split_on (CHR ''='') (CHR '' '' # value_text v)"
    unfolding eq by (rule split_on_append_sep)
qed

lemma scalar_ok_wf: "scalar_ok v \<Longrightarrow> \<forall>s. v \<noteq> JStr s \<Longrightarrow> wf_json v"
  by (cases v) simp_all

lemma assign_line_value:
  assumes "key_ok k" "scalar_ok v" "get_in (result st) (currentSection st) = Some (JObj Q)"
  shows "assign_line st (assign_text (k, v)) =
    Inr (st\<lparr>result := put_in (result st) (currentSection st) (JObj (obj_define k v Q))\<rparr>)"
proof -
  have sc: "set_current st k w = Inr (st\<lparr>result := put_in (result st) (currentSection st) (JObj (obj_define k w Q))\<rparr>)" for w
    using set_current_obj[OF assms(3)] key_ok_facts(9)[OF assms(1)] by simp
  have val: "trim (join_with (CHR ''='') (split_on (CHR ''='') (CHR '' '' # value_text v))) = value_text v"
    using trim_space_value[OF assms(2)] by (simp only: join_split)
  have al: "assign_line st (assign_text (k, v)) =
    (case json_parse (value_text v) of
       JOk w \<Rightarrow> (case set_current st k w of
                   Inl e \<Rightarrow> if e = TypeError then set_current st k (JStr (strip_quotes (value_text v))) else Inl e
                 | Inr st' \<Rightarrow> Inr st')
     | JSyntaxError \<Rightarrow> set_current st k (JStr (strip_quotes (value_text v)))
     | JUnsupported \<Rightarrow> Inl Unmodelled)"
    unfolding assign_line_def assign_text_line(2)[OF assms(1,2)] list.case Let_def val
      trim_key_space[OF assms(1)] ..
  show ?thesis
  proof (cases "\<exists>s. v = JStr s")
    case True
    then obtain s where v: "v = JStr s" by blast
    have vt: "value_text (JStr s) = dquote # s @ [dquote]" by (simp add: value_text_def)
    have "bslash \<notin> set s" using assms(2) v by simp
    then consider "json_parse (value_text v) = JOk (JStr s)" | "json_parse (value_text v) = JSyntaxError"
      using json_parse_quoted[of s] vt v by auto
    then show ?thesis
    proof cases
      case 1
      then show ?thesis unfolding al by (simp add: sc v)
    next
      case 2
      then show ?thesis unfolding al by (simp add: sc v vt)
    qed
  next
    case False
    then have "json_parse (value_text v) = JOk v"
      using value_text_json[OF assms(2)] scalar_ok_wf[OF assms(2)] parse_of_stringify by auto
    then show ?thesis by (simp add: al sc)
  qed
qed

lemma parse_line_is_assign:
  assumes "key_ok k" "scalar_ok v"
  shows "parse_line st (assign_text (k, v)) = assign_line st (assign_text (k, v))"
proof -
  obtain c t where k: "k = c # t" using key_ok_facts(1)[OF assms(1)] by (cases k) auto
  have c: "c \<noteq> CHR ''#''" "c \<noteq> CHR ''[''" using key_ok_facts(4,5)[OF assms(1)] k by auto
  have "assign_text (k, v) = c # (t @ '' = '' @ value_text (snd (k, v)))"
    by (simp add: assign_text_def k)
  then show ?thesis
    using assign_text_line(1)[OF assms] c
    by (simp add: parse_line_def Let_def text_simps)
qed

lemma parse_lines_append:
  "parse_lines st (xs @ ys) = sbind (parse_lines st xs) (\<lambda>st'. parse_lines st' ys)"
  by (induction xs arbitrary: st) (simp_all add: sbind_def split: sum.splits)

lemma parse_assign:
  assumes "get_in (result st) (currentSection st) = Some (JObj Q)" "key_ok k" "scalar_ok v"
  shows "parse_line st (assign_text (k, v)) =
     Inr (st\<lparr>result := put_in (result st) (currentSection st) (JObj (obj_define k v Q))\<rparr>)"
  using parse_line_is_assign[OF assms(2,3)] assign_line_value[OF assms(2,3,1)] by simp

lemma parse_assigns:
  "qs \<noteq> [] \<Longrightarrow> get_in (result st) (currentSection st) = Some (JObj Q) \<Longrightarrow>
   \<forall>kv \<in> set qs. key_ok (fst kv) \<and> scalar_ok (snd kv) \<Longrightarrow>
   parse_lines st (map assign_text qs) =
     Inr (st\<lparr>result := put_in (result st) (currentSection st) (JObj (define_all Q qs))\<rparr>)"
proof (induction qs arbitrary: st Q rule: list_nonempty_induct)
  case (single kv)
  then show ?case using parse_assign[of st Q "fst kv" "snd kv"] by (simp add: define_all_def)
next
  case (cons kv qs)
  obtain k v where kv: "kv = (k, v)" by (cases kv)
  have ok: "key_ok k" "scalar_ok v" using cons.prems(2) kv by auto
  let ?st1 = "st\<lparr>result := put_in (result st) (currentSection st) (JObj (obj_define k v Q))\<rparr>"
  have step: "parse_line st (assign_text (k, v)) = Inr ?st1"
    by (rule parse_assign[OF cons.prems(1) ok])
  have "get_in (result ?st1) (currentSection ?st1) = Some (JObj (obj_define k v Q))"
    using get_in_put_in[OF cons.prems(1)] by simp
  then have "parse_lines ?st1 (map assign_text qs) =
      Inr (?st1\<lparr>result := put_in (result ?st1) (currentSection ?st1) (JObj (define_all (obj_define k v Q) qs))\<rparr>)"
    using cons.IH cons.prems(2) by simp
  then show ?case
    using step kv put_in_put_in[OF cons.prems(1)] by (simp add: define_all_Cons)
qed

section \<open>Header lines\<close>

lemma overwrite_absent: "k \<notin> fst ` set R \<Longrightarrow> overwrite k x R = R"
  by (induction R) auto

lemma overwrite_insert_index: "k \<notin> fst ` set R \<Longrightarrow> overwrite k x (insert_index k y R) = insert_index k x R"
  by (induction R) (auto simp: overwrite_absent)

lemma overwrite_append: "overwrite k x (R @ S) = overwrite k x R @ overwrite k x S"
  by (induction R) auto

lemma overwrite_obj_define:
  "k \<notin> fst ` set R \<Longrightarrow> overwrite k x (obj_define k y R) = obj_define k x R"
  by (auto simp: obj_define_def overwrite_insert_index overwrite_absent overwrite_append)

lemma slice_brackets: "slice (CHR ''['' # k @ '']'') 1 1 = k"
  by (simp add: slice_def)

lemma slice_double_brackets: "slice (''[['' @ k @ '']]'') 2 2 = k"
  by (simp add: slice_def)

lemma trim_bracketed: "trim (c # k @ [d]) = c # k @ [d]" if "\<not> is_js_ws c" "\<not> is_js_ws d"
  using that by (intro trim_id) simp

lemma parse_line_empty [simp]: "parse_line st [] = Inr st"
  by (simp add: parse_line_def trim_def)

lemma parse_line_table_header:
  assumes "key_ok k"
  shows "parse_line st (CHR ''['' # k @ '']'') = section_header st k"
proof -
  obtain c t where k: "k = c # t" using key_ok_facts(1)[OF assms] by (cases k) auto
  have c: "c \<noteq> CHR ''[''" using key_ok_facts(5)[OF assms] k by simp
  have tr: "trim (CHR ''['' # k @ '']'') = CHR ''['' # k @ '']''"
    using trim_bracketed[where c = "CHR ''[''" and k = k and d = "CHR '']''"] by (simp add: is_js_ws_def)
  have "ends_with (CHR ''['' # k @ '']'') '']''" by (metis append_Cons ends_with_append)
  then show ?thesis using tr c slice_brackets[of k]
    by (simp add: parse_line_def Let_def k text_simps)
qed

lemma parse_line_array_header:
  assumes "key_ok k"
  shows "parse_line st (''[['' @ k @ '']]'') = array_header st k"
proof -
  have tr: "trim (''[['' @ k @ '']]'') = ''[['' @ k @ '']]''"
    using trim_bracketed[where c = "CHR ''[''" and k = "CHR ''['' # k @ '']''" and d = "CHR '']''"]
    by (simp add: is_js_ws_def)
  have "ends_with (''[['' @ k @ '']]'') '']]''" by (metis append.assoc ends_with_append)
  then show ?thesis using tr slice_double_brackets[of k]
    by (simp add: parse_line_def Let_def text_simps)
qed

section \<open>Blocks of the printed text\<close>

lemma section_ok_entries:
  "section_ok qs \<Longrightarrow> \<forall>kv \<in> set qs. key_ok (fst kv) \<and> scalar_ok (snd kv)"
  by (simp add: section_ok_def)

lemma table_block:
  assumes st: "result st = JObj R" and k: "key_ok k" "k \<notin> fst ` set R" and qs: "section_ok qs"
  shows "\<exists>st'. parse_lines st (table_lines (k, JObj qs)) = Inr st' \<and>
    result st' = JObj (obj_define k (JObj qs) R)"
proof -
  have hp: "\<not> has_property k R" using k key_ok_facts(10)[OF k(1)] by (auto simp: has_property_def)
  let ?R1 = "obj_define k (JObj []) R"
  let ?st1 = "st\<lparr>result := JObj ?R1, currentSection := [k], currentPath := [k], currentArray := None\<rparr>"
  have "split_on (CHR ''.'') k = [k]" using key_ok_facts(7)[OF k(1)] by (rule split_on_no_sep)
  then have "section_header st k = Inr ?st1"
    using hp st by (simp add: section_header_def Let_def)
  then have first: "parse_lines st [[], CHR ''['' # k @ '']''] = Inr ?st1"
    using parse_line_table_header[OF k(1)] by simp
  have lines: "table_lines (k, JObj qs) = [[], CHR ''['' # k @ '']''] @ map assign_text qs"
    by (simp add: table_lines_def obj_props_def)
  show ?thesis
  proof (cases "qs = []")
    case True
    then show ?thesis using first lines by simp
  next
    case False
    have g: "get_in (result ?st1) (currentSection ?st1) = Some (JObj [])" by simp
    have ord: "define_all [] qs = qs" using qs by (simp add: section_ok_def define_all_Nil_ordered)
    have "parse_lines ?st1 (map assign_text qs) =
        Inr (?st1\<lparr>result := put_in (JObj ?R1) [k] (JObj qs)\<rparr>)"
      using parse_assigns[OF False g section_ok_entries[OF qs]] ord by simp
    moreover have "put_in (JObj ?R1) [k] (JObj qs) = JObj (obj_define k (JObj qs) R)"
      using overwrite_obj_define[OF k(2)] by simp
    ultimately show ?thesis using first lines by (simp add: parse_lines_append)
  qed
qed

lemma array_index_dec_digits: "n < 4294967295 \<Longrightarrow> is_array_index (dec_digits n)"
  by (simp add: is_array_index_def canon_dec_digits)

lemma item_block:
  assumes st: "result st = JObj R" "map_of R k = Some (JArr ys)" and n: "length ys < 4294967295"
    and k: "key_ok k" and q: "section_ok q"
  shows "\<exists>st'. parse_lines st (item_lines k (JObj q)) = Inr st' \<and>
    result st' = JObj (overwrite k (JArr (ys @ [JObj q])) R)"
proof -
  let ?i = "dec_digits (length ys)"
  let ?R1 = "overwrite k (JArr (ys @ [JObj []])) R"
  let ?st1 = "st\<lparr>result := JObj ?R1, currentSection := [k, ?i], currentArray := Some [k, ?i]\<rparr>"
  have "array_header st k = Inr ?st1" using st n by (simp add: array_header_def)
  then have first: "parse_lines st [[], ''[['' @ k @ '']]''] = Inr ?st1"
    using parse_line_array_header[OF k] by simp
  have lines: "item_lines k (JObj q) = [[], ''[['' @ k @ '']]''] @ map assign_text q"
    by (simp add: item_lines_def obj_props_def)
  have m1: "map_of ?R1 k = Some (JArr (ys @ [JObj []]))" using map_of_overwrite_same[OF st(2)] .
  show ?thesis
  proof (cases "q = []")
    case True
    then show ?thesis using first lines by simp
  next
    case False
    have g: "get_in (result ?st1) (currentSection ?st1) = Some (JObj [])"
      using m1 n array_index_dec_digits[OF n] by simp
    have ord: "define_all [] q = q" using q by (simp add: section_ok_def define_all_Nil_ordered)
    have "parse_lines ?st1 (map assign_text q) =
        Inr (?st1\<lparr>result := put_in (JObj ?R1) [k, ?i] (JObj q)\<rparr>)"
      using parse_assigns[OF False g section_ok_entries[OF q]] ord by simp
    moreover have "put_in (JObj ?R1) [k, ?i] (JObj q) = JObj (overwrite k (JArr (ys @ [JObj q])) R)"
      using m1 n array_index_dec_digits[OF n] by (simp add: overwrite_overwrite)
    ultimately show ?thesis using first lines by (simp add: parse_lines_append)
  qed
qed

lemma items_block:
  "xs \<noteq> [] \<Longrightarrow> result st = JObj R \<Longrightarrow> map_of R k = Some (JArr ys) \<Longrightarrow>
   length ys + length xs \<le> 4294967295 \<Longrightarrow> key_ok k \<Longrightarrow>
   \<forall>x \<in> set xs. \<exists>q. x = JObj q \<and> section_ok q \<Longrightarrow>
   \<exists>st'. parse_lines st (concat (map (item_lines k) xs)) = Inr st' \<and>
     result st' = JObj (overwrite k (JArr (ys @ xs)) R)"
proof (induction xs arbitrary: st R ys rule: list_nonempty_induct)
  case (single x)
  then obtain q where "x = JObj q" "section_ok q" by auto
  then show ?case using item_block[OF single.prems(1,2) _ single.prems(4)] single.prems(3) by simp
next
  case (cons x xs)
  obtain q where x: "x = JObj q" "section_ok q" using cons.prems(5) by auto
  obtain st1 where st1: "parse_lines st (item_lines k x) = Inr st1"
    "result st1 = JObj (overwrite k (JArr (ys @ [x])) R)"
    using item_block[OF cons.prems(1,2) _ cons.prems(4) x(2)] cons.prems(3) x(1) by auto
  have "map_of (overwrite k (JArr (ys @ [x])) R) k = Some (JArr (ys @ [x]))"
    using map_of_overwrite_same[OF cons.prems(2)] .
  then obtain st2 where "parse_lines st1 (concat (map (item_lines k) xs)) = Inr st2"
    "result st2 = JObj (overwrite k (JArr ((ys @ [x]) @ xs)) (overwrite k (JArr (ys @ [x])) R))"
    using cons.IH[OF st1(2)] cons.prems(3,4,5) by fastforce
  then show ?case using st1 by (auto simp: parse_lines_append overwrite_overwrite)
qed

lemma array_header_absent:
  assumes "result st = JObj R" "k \<notin> fst ` set R" "key_ok k"
  shows "array_header st k = array_header (st\<lparr>result := JObj (obj_define k (JArr []) R)\<rparr>) k"
proof -
  have "map_of R k = None" using assms(2) by (simp add: map_of_eq_None_iff)
  then show ?thesis using assms(1) key_ok_facts(9)[OF assms(3)] by (simp add: array_header_def obj_set_def)
qed

lemma array_block:
  assumes st: "result st = JObj R" and k: "k \<notin> fst ` set R" "key_ok k"
    and xs: "xs \<noteq> []" "length xs \<le> 4294967295" "\<forall>x \<in> set xs. \<exists>q. x = JObj q \<and> section_ok q"
  shows "\<exists>st'. parse_lines st (concat (map (item_lines k) xs)) = Inr st' \<and>
    result st' = JObj (obj_define k (JArr xs) R)"
proof -
  let ?st0 = "st\<lparr>result := JObj (obj_define k (JArr []) R)\<rparr>"
  obtain x xs' where xxs: "xs = x # xs'" using xs(1) by (cases xs) auto
  have "parse_lines st (concat (map (item_lines k) xs)) = parse_lines ?st0 (concat (map (item_lines k) xs))"
    using array_header_absent[OF st k] parse_line_array_header[OF k(2)]
    by (simp add: xxs item_lines_def)
  moreover have "\<exists>st'. parse_lines ?st0 (concat (map (item_lines k) xs)) = Inr st' \<and>
      result st' = JObj (overwrite k (JArr ([] @ xs)) (obj_define k (JArr []) R))"
    using items_block[OF xs(1), of ?st0 "obj_define k (JArr []) R" k "[]"] k(2) xs(2,3) by simp
  ultimately show ?thesis using overwrite_obj_define[OF k(1)] by simp
qed

section \<open>The three groups\<close>

lemma define_all_Nil [simp]: "define_all R [] = R"
  by (simp add: define_all_def)

lemma keys_define_all: "fst ` set (define_all R kvs) = fst ` set R \<union> fst ` set kvs"
  by (induction kvs arbitrary: R) (auto simp: define_all_Cons)

lemma define_all_append: "define_all R (xs @ ys) = define_all (define_all R xs) ys"
  by (simp add: define_all_def)

lemma tables_blocks:
  "result st = JObj R \<Longrightarrow> distinct (map fst T) \<Longrightarrow> fst ` set T \<inter> fst ` set R = {} \<Longrightarrow>
   \<forall>kv \<in> set T. key_ok (fst kv) \<and> (\<exists>qs. snd kv = JObj qs \<and> section_ok qs) \<Longrightarrow>
   \<exists>st'. parse_lines st (concat (map table_lines T)) = Inr st' \<and> result st' = JObj (define_all R T)"
proof (induction T arbitrary: st R)
  case Nil
  then show ?case by (simp add: define_all_def)
next
  case (Cons kv T)
  obtain k qs where kv: "kv = (k, JObj qs)" "key_ok k" "section_ok qs"
    using Cons.prems(4) by (cases kv) auto
  have "k \<notin> fst ` set R" using Cons.prems(3) kv by auto
  then obtain st1 where st1: "parse_lines st (table_lines (k, JObj qs)) = Inr st1"
    "result st1 = JObj (obj_define k (JObj qs) R)"
    using table_block[OF Cons.prems(1) kv(2) _ kv(3)] by blast
  have "fst ` set T \<inter> fst ` set (obj_define k (JObj qs) R) = {}"
    using Cons.prems(2,3) kv(1) by auto
  then obtain st2 where "parse_lines st1 (concat (map table_lines T)) = Inr st2"
    "result st2 = JObj (define_all (obj_define k (JObj qs) R) T)"
    using Cons.IH[OF st1(2)] Cons.prems(2,4) by auto
  then show ?case using st1 kv(1) by (auto simp: parse_lines_append define_all_Cons)
qed

lemma arrays_blocks:
  "result st = JObj R \<Longrightarrow> distinct (map fst A) \<Longrightarrow> fst ` set A \<inter> fst ` set R = {} \<Longrightarrow>
   \<forall>kx \<in> set A. key_ok (fst kx) \<and> snd kx \<noteq> [] \<and> length (snd kx) \<le> 4294967295 \<and>
      (\<forall>x \<in> set (snd kx). \<exists>q. x = JObj q \<and> section_ok q) \<Longrightarrow>
   \<exists>st'. parse_lines st (concat (map array_lines A)) = Inr st' \<and>
     result st' = JObj (define_all R (map (\<lambda>kx. (fst kx, JArr (snd kx))) A))"
proof (induction A arbitrary: st R)
  case Nil
  then show ?case by (simp add: define_all_def)
next
  case (Cons kx A)
  obtain k xs where kx: "kx = (k, xs)" by (cases kx)
  have ok: "key_ok k" "xs \<noteq> []" "length xs \<le> 4294967295" "\<forall>x \<in> set xs. \<exists>q. x = JObj q \<and> section_ok q"
    using Cons.prems(4) kx by auto
  have "k \<notin> fst ` set R" using Cons.prems(3) kx by auto
  then obtain st1 where st1: "parse_lines st (array_lines (k, xs)) = Inr st1"
    "result st1 = JObj (obj_define k (JArr xs) R)"
    using array_block[OF Cons.prems(1) _ ok(1-4)] by (auto simp: array_lines_def)
  have "fst ` set A \<inter> fst ` set (obj_define k (JArr xs) R) = {}"
    using Cons.prems(2,3) kx by auto
  then obtain st2 where "parse_lines st1 (concat (map array_lines A)) = Inr st2"
    "result st2 = JObj (define_all (obj_define k (JArr xs) R) (map (\<lambda>kx. (fst kx, JArr (snd kx))) A))"
    using Cons.IH[OF st1(2)] Cons.prems(2,4) by auto
  then show ?case using st1 kx by (auto simp: parse_lines_append define_all_Cons)
qed

lemma simple_block:
  assumes "result st = JObj R" "currentSection st = []" "\<forall>kv \<in> set S. key_ok (fst kv) \<and> scalar_ok (snd kv)"
  shows "\<exists>st'. parse_lines st (map assign_text S) = Inr st' \<and> result st' = JObj (define_all R S)
    \<and> currentSection st' = []"
proof (cases "S = []")
  case True
  then show ?thesis using assms by (simp add: define_all_def)
next
  case False
  have "get_in (result st) (currentSection st) = Some (JObj R)" using assms by simp
  then show ?thesis using parse_assigns[OF False _ assms(3)] assms(1,2) by simp
qed

section \<open>The printed text as lines\<close>

abbreviation lines_text :: "string list \<Rightarrow> string" where
  "lines_text ls \<equiv> concat (map (\<lambda>l. l @ [nl]) ls)"

lemma scalar_ok_simple: "scalar_ok v \<Longrightarrow> is_simple v"
  by (cases v) (simp_all add: is_simple_def is_table_def is_table_array_def)

lemma scalar_line_text: "scalar_line kv = assign_text kv @ [nl]"
  by (cases kv) (simp add: scalar_line_def assign_text_def value_text_def split: json.splits)

lemma scalar_lines_text: "concat (map scalar_line qs) = lines_text (map assign_text qs)"
  by (induction qs) (simp_all add: scalar_line_text)

lemma no_proto_key: "\<forall>kv \<in> set ps. key_ok (fst kv) \<Longrightarrow> ''__proto__'' \<notin> fst ` set ps"
  using key_ok_facts(9) by fastforce

lemma group_entries_keys_ok:
  assumes "js_ordered ps" "\<forall>kv \<in> set ps. key_ok (fst kv)"
  shows "group_entries ps = group_ref ps"
proof -
  have "''__proto__'' \<notin> fst ` set ps" using no_proto_key assms(2) by blast
  moreover have "js_ordered []" by (simp add: js_ordered_def)
  ultimately show ?thesis using group_entries_acc[of "[]" ps "[]" "[]"] js_ordered_filter[OF assms(1)]
    by (simp add: group_entries_def group_ref_def)
qed

lemma toToml_section:
  assumes "section_ok qs"
  shows "toToml (JObj qs) = Inr (lines_text (map assign_text qs))"
proof -
  have ok: "js_ordered qs" "\<forall>kv \<in> set qs. key_ok (fst kv) \<and> scalar_ok (snd kv)"
    using assms by (simp_all add: section_ok_def)
  have "group_ref qs = (qs, [], [])"
    using ok(2) scalar_ok_simple by (auto simp: group_ref_def is_simple_def filter_id_conv)
  moreover have "\<forall>kv \<in> set qs. key_ok (fst kv)" using ok(2) by blast
  ultimately have "group_entries qs = (qs, [], [])"
    using group_entries_keys_ok[OF ok(1)] by simp
  then show ?thesis by (simp add: scalar_lines_text)
qed

lemma emit_tables_text:
  "\<forall>kv \<in> set T. \<exists>qs. snd kv = JObj qs \<and> section_ok qs \<Longrightarrow>
   emit_tables T = Inr (lines_text (concat (map table_lines T)))"
proof (induction T)
  case (Cons kv T)
  obtain k qs where kv: "kv = (k, JObj qs)" "section_ok qs" using Cons.prems by (cases kv) auto
  then show ?case using Cons toToml_section[OF kv(2)] by (simp add: table_lines_def obj_props_def)
qed simp

lemma emit_items_text:
  "\<forall>x \<in> set xs. \<exists>q. x = JObj q \<and> section_ok q \<Longrightarrow>
   emit_items k xs = Inr (lines_text (concat (map (item_lines k) xs)))"
proof (induction xs)
  case (Cons x xs)
  obtain q where x: "x = JObj q" "section_ok q" using Cons.prems by auto
  then show ?case using Cons toToml_section[OF x(2)] by (simp add: item_lines_def obj_props_def)
qed simp

lemma emit_arrays_text:
  "\<forall>kx \<in> set A. \<forall>x \<in> set (snd kx). \<exists>q. x = JObj q \<and> section_ok q \<Longrightarrow>
   emit_arrays A = Inr (lines_text (concat (map array_lines A)))"
proof (induction A)
  case (Cons kx A)
  obtain k xs where kx: "kx = (k, xs)" by (cases kx)
  then show ?case using Cons emit_items_text[of xs k] by (simp add: array_lines_def)
qed simp

section \<open>Documents\<close>

lemma entry_simple: "entry_ok v \<Longrightarrow> is_simple v \<Longrightarrow> scalar_ok v"
  by (cases v) (auto simp: entry_ok_def is_simple_def is_table_def)

lemma entry_table: "entry_ok v \<Longrightarrow> is_table v \<Longrightarrow> \<exists>qs. v = JObj qs \<and> section_ok qs"
  by (cases v) (auto simp: entry_ok_def is_table_def)

lemma item_ok_iff: "item_ok x \<longleftrightarrow> (\<exists>qs. x = JObj qs \<and> section_ok qs)"
  by (cases x) auto

lemma entry_table_array:
  "entry_ok v \<Longrightarrow> is_table_array v \<Longrightarrow>
   v = JArr (array_elems v) \<and> array_elems v \<noteq> [] \<and> length (array_elems v) \<le> 4294967295 \<and>
   (\<forall>x \<in> set (array_elems v). \<exists>q. x = JObj q \<and> section_ok q)"
  by (auto simp: entry_ok_def item_ok_iff is_table_array_def array_elems_def split: json.splits list.splits)

lemma table_not_array: "is_table v \<Longrightarrow> \<not> is_table_array v"
  by (auto simp: is_table_def is_table_array_def split: json.splits)

lemma distinct_filters:
  "distinct (map fst ps) \<Longrightarrow>
   distinct (map fst (filter (\<lambda>kv. is_simple (snd kv)) ps @ filter (\<lambda>kv. is_table (snd kv)) ps
     @ filter (\<lambda>kv. is_table_array (snd kv)) ps))"
proof (induction ps)
  case (Cons kv ps)
  have "fst kv \<notin> fst ` set ps" using Cons.prems by simp
  then show ?case using Cons by (auto simp: is_simple_def dest: table_not_array)
qed simp

lemma arrays_back:
  "map (\<lambda>kx. (fst kx, JArr (snd kx))) (map (\<lambda>kv. (fst kv, array_elems (snd kv))) (filter (\<lambda>kv. is_table_array (snd kv)) ps))
     = filter (\<lambda>kv. is_table_array (snd kv)) ps"
  by (induction ps) (auto simp: is_table_array_def array_elems_def split: json.splits list.splits)

lemma regroup_filters:
  "regroup ps = filter (\<lambda>kv. is_simple (snd kv)) ps @ filter (\<lambda>kv. is_table (snd kv)) ps
     @ filter (\<lambda>kv. is_table_array (snd kv)) ps"
  using arrays_back[of ps] by (simp add: regroup_def group_ref_def)

lemma nl_assign_text: "key_ok k \<Longrightarrow> scalar_ok v \<Longrightarrow> nl \<notin> set (assign_text (k, v))"
  using key_ok_facts(8) value_text_shape by (simp add: assign_text_def)

lemma nl_table_lines:
  "key_ok k \<Longrightarrow> section_ok qs \<Longrightarrow> \<forall>l \<in> set (table_lines (k, JObj qs)). nl \<notin> set l"
  using key_ok_facts(8)[of k] nl_assign_text
  by (auto simp: table_lines_def obj_props_def section_ok_def)

lemma nl_item_lines:
  "key_ok k \<Longrightarrow> section_ok q \<Longrightarrow> \<forall>l \<in> set (item_lines k (JObj q)). nl \<notin> set l"
  using key_ok_facts(8)[of k] nl_assign_text
  by (auto simp: item_lines_def obj_props_def section_ok_def)

lemma parse_lines_init_simple:
  "\<forall>kv \<in> set S. key_ok (fst kv) \<and> scalar_ok (snd kv) \<Longrightarrow>
   \<exists>st. parse_lines init_state (map assign_text S) = Inr st \<and> result st = JObj (define_all [] S)"
  using simple_block[of init_state "[]" S] by (auto simp: init_state_def)

lemma toml_roundtrip_regroup:
  assumes "doc_ok ps"
  shows "\<exists>s. toToml (JObj ps) = Inr s \<and> parseToml s = Inr (JObj (define_all [] (regroup ps)))"
proof -
  have ord: "js_ordered ps" and ok: "\<forall>kv \<in> set ps. key_ok (fst kv) \<and> entry_ok (snd kv)"
    using assms by (simp_all add: doc_ok_def)
  define S where "S = filter (\<lambda>kv. is_simple (snd kv)) ps"
  define T where "T = filter (\<lambda>kv. is_table (snd kv)) ps"
  define A' where "A' = filter (\<lambda>kv. is_table_array (snd kv)) ps"
  define A where "A = map (\<lambda>kv. (fst kv, array_elems (snd kv))) A'"
  have keys: "\<forall>kv \<in> set ps. key_ok (fst kv)" using ok by blast
  have g: "group_entries ps = (S, T, A)"
    using group_entries_keys_ok[OF ord keys] by (simp add: group_ref_def S_def T_def A_def A'_def)
  have Sok: "\<forall>kv \<in> set S. key_ok (fst kv) \<and> scalar_ok (snd kv)"
    using ok entry_simple by (auto simp: S_def)
  have Tok: "\<forall>kv \<in> set T. key_ok (fst kv) \<and> (\<exists>qs. snd kv = JObj qs \<and> section_ok qs)"
    using ok entry_table by (auto simp: T_def)
  have Aok: "\<forall>kx \<in> set A. key_ok (fst kx) \<and> snd kx \<noteq> [] \<and> length (snd kx) \<le> 4294967295 \<and>
      (\<forall>x \<in> set (snd kx). \<exists>q. x = JObj q \<and> section_ok q)"
    using ok entry_table_array by (auto simp: A_def A'_def)
  have AA: "map (\<lambda>kx. (fst kx, JArr (snd kx))) A = A'"
    using arrays_back[of ps] by (simp add: A_def A'_def)
  have reg: "regroup ps = S @ T @ A'"
    using regroup_filters[of ps] by (simp add: S_def T_def A'_def)
  have "distinct (map fst ps)" using ord by (simp add: js_ordered_def)
  then have dist: "distinct (map fst (S @ T @ A'))"
    unfolding S_def T_def A'_def by (rule distinct_filters)
  define L where "L = map assign_text S @ concat (map table_lines T) @ concat (map array_lines A)"
  have printed: "toToml (JObj ps) = Inr (lines_text L)"
    using g emit_tables_text[of T] emit_arrays_text[of A] Tok Aok by (simp add: L_def scalar_lines_text)
  have "\<forall>l \<in> set L. nl \<notin> set l"
    using Sok Tok Aok nl_assign_text nl_table_lines nl_item_lines
    by (fastforce simp: L_def array_lines_def)
  then have split: "split_on nl (lines_text L) = L @ [[]]"
    using split_on_lines[of L nl "[]"] by simp
  obtain st1 where st1: "parse_lines init_state (map assign_text S) = Inr st1"
    "result st1 = JObj (define_all [] S)"
    using parse_lines_init_simple[OF Sok] by blast
  have "fst ` set T \<inter> fst ` set (define_all [] S) = {}"
    using dist by (auto simp: keys_define_all)
  then obtain st2 where st2: "parse_lines st1 (concat (map table_lines T)) = Inr st2"
    "result st2 = JObj (define_all (define_all [] S) T)"
    using tables_blocks[OF st1(2) _ _ Tok] dist by auto
  have mA: "map fst A = map fst A'" by (simp add: A_def)
  have "fst ` set A \<inter> fst ` set (define_all (define_all [] S) T) = {}"
  proof -
    have "fst ` set A = fst ` set A'" using mA by (metis set_map)
    then show ?thesis using dist by (auto simp: keys_define_all)
  qed
  then obtain st3 where st3: "parse_lines st2 (concat (map array_lines A)) = Inr st3"
    "result st3 = JObj (define_all (define_all (define_all [] S) T) A')"
    using arrays_blocks[OF st2(2) _ _ Aok] dist mA AA by auto
  have "parseToml (lines_text L) = Inr (result st3)"
    using st1 st2 st3 split by (simp add: parseToml_def L_def parse_lines_append)
  then show ?thesis
    using printed reg st3(2) by (simp add: define_all_append)
qed

lemma map_of_define_all:
  "distinct (map fst kvs) \<Longrightarrow> map_of (define_all R kvs) = map_of R ++ map_of kvs"
proof (induction kvs arbitrary: R)
  case (Cons kv kvs)
  obtain k v where kv: "kv = (k, v)" by (cases kv)
  then have "k \<notin> dom (map_of kvs)" using Cons.prems by (simp add: dom_map_of_conv_image_fst)
  then show ?case using Cons kv
    by (simp add: define_all_Cons map_add_upd_left) (auto simp: map_add_def fun_eq_iff split: option.splits)
qed simp

lemma set_regroup: "set (regroup ps) = set ps"
  by (auto simp: regroup_filters is_simple_def)

text \<open>
  C1: the codec round trip. For a document the format can carry, with its entries
  already in the order \<open>toToml\<close> prints them (scalars and inline arrays, then tables,
  then table arrays), \<open>toToml\<close> returns a text and \<open>parseToml\<close> of that text
  returns the document itself.
\<close>

theorem toml_roundtrip:
  assumes "doc_ok ps" "regroup ps = ps"
  shows "\<exists>s. toToml (JObj ps) = Inr s \<and> parseToml s = Inr (JObj ps)"
proof -
  have "define_all [] ps = ps" using assms(1) by (simp add: doc_ok_def define_all_Nil_ordered)
  then show ?thesis using toml_roundtrip_regroup[OF assms(1)] assms(2) by simp
qed

theorem toml_roundtrip_witness:
  "doc_ok [(''name'', JStr ''lab \"one\"''), (''port'', JNum 8081 0), (''db'', JObj [(''host'', JStr ''h'')]),
           (''svc'', JArr [JObj [(''n'', JNum 1 0)], JObj [(''n'', JNum 25 (-1))]])] \<and>
   regroup [(''name'', JStr ''lab \"one\"''), (''port'', JNum 8081 0), (''db'', JObj [(''host'', JStr ''h'')]),
           (''svc'', JArr [JObj [(''n'', JNum 1 0)], JObj [(''n'', JNum 25 (-1))]])] =
     [(''name'', JStr ''lab \"one\"''), (''port'', JNum 8081 0), (''db'', JObj [(''host'', JStr ''h'')]),
      (''svc'', JArr [JObj [(''n'', JNum 1 0)], JObj [(''n'', JNum 25 (-1))]])] \<and>
   (\<exists>s. toToml (JObj [(''name'', JStr ''lab \"one\"''), (''port'', JNum 8081 0), (''db'', JObj [(''host'', JStr ''h'')]),
           (''svc'', JArr [JObj [(''n'', JNum 1 0)], JObj [(''n'', JNum 25 (-1))]])]) = Inr s \<and>
        parseToml s = Inr (JObj [(''name'', JStr ''lab \"one\"''), (''port'', JNum 8081 0), (''db'', JObj [(''host'', JStr ''h'')]),
           (''svc'', JArr [JObj [(''n'', JNum 1 0)], JObj [(''n'', JNum 25 (-1))]])]))"
proof -
  have h1: "doc_ok [(''name'', JStr ''lab \"one\"''), (''port'', JNum 8081 0), (''db'', JObj [(''host'', JStr ''h'')]),
           (''svc'', JArr [JObj [(''n'', JNum 1 0)], JObj [(''n'', JNum 25 (-1))]])]"
    by code_simp
  have h2: "regroup [(''name'', JStr ''lab \"one\"''), (''port'', JNum 8081 0), (''db'', JObj [(''host'', JStr ''h'')]),
           (''svc'', JArr [JObj [(''n'', JNum 1 0)], JObj [(''n'', JNum 25 (-1))]])] =
     [(''name'', JStr ''lab \"one\"''), (''port'', JNum 8081 0), (''db'', JObj [(''host'', JStr ''h'')]),
      (''svc'', JArr [JObj [(''n'', JNum 1 0)], JObj [(''n'', JNum 25 (-1))]])]"
    by code_simp
  show ?thesis using toml_roundtrip[OF h1 h2] h1 h2 by blast
qed

text \<open>
  C2: for every document the format can carry, in any order, the parsed text holds
  the same keys with the same values: the round trip only moves the scalar entries
  before the tables and the tables before the table arrays.
\<close>

theorem toml_roundtrip_lookup:
  assumes "doc_ok ps"
  shows "\<exists>s ps'. toToml (JObj ps) = Inr s \<and> parseToml s = Inr (JObj ps') \<and> map_of ps' = map_of ps"
proof -
  have d: "distinct (map fst ps)" using assms by (simp add: doc_ok_def js_ordered_def)
  have dr: "distinct (map fst (regroup ps))"
    using distinct_filters[OF d] regroup_filters[of ps] by simp
  have "map_of (regroup ps) = map_of ps"
    using map_of_inject_set[OF dr d] set_regroup by blast
  then have "map_of (define_all [] (regroup ps)) = map_of ps"
    using map_of_define_all[OF dr, of "[]"] by simp
  then show ?thesis using toml_roundtrip_regroup[OF assms] by blast
qed

theorem toml_roundtrip_lookup_witness:
  "doc_ok [(''db'', JObj [(''port'', JNum 5432 0)]), (''name'', JStr ''lab'')] \<and>
   (\<exists>s ps'. toToml (JObj [(''db'', JObj [(''port'', JNum 5432 0)]), (''name'', JStr ''lab'')]) = Inr s \<and>
      parseToml s = Inr (JObj ps') \<and> map_of ps' = map_of [(''db'', JObj [(''port'', JNum 5432 0)]), (''name'', JStr ''lab'')])"
proof -
  have h: "doc_ok [(''db'', JObj [(''port'', JNum 5432 0)]), (''name'', JStr ''lab'')]" by code_simp
  show ?thesis using toml_roundtrip_lookup[OF h] h by blast
qed

section \<open>Where the codec departs from the specification\<close>

lemma parse_line_assign_raw:
  assumes "key_ok k" "t \<noteq> []" "\<not> is_js_ws (hd t)" "\<not> is_js_ws (last t)"
  shows "parse_line st (k @ '' = '' @ t) =
    (case json_parse t of
       JOk w \<Rightarrow> (case set_current st k w of
                   Inl e \<Rightarrow> if e = TypeError then set_current st k (JStr (strip_quotes t)) else Inl e
                 | Inr st' \<Rightarrow> Inr st')
     | JSyntaxError \<Rightarrow> set_current st k (JStr (strip_quotes t))
     | JUnsupported \<Rightarrow> Inl Unmodelled)"
proof -
  obtain c r where k: "k = c # r" using key_ok_facts(1)[OF assms(1)] by (cases k) auto
  have c: "c \<noteq> CHR ''#''" "c \<noteq> CHR ''[''" "\<not> is_js_ws c" using key_ok_facts(2,4,5)[OF assms(1)] k by auto
  have tr: "trim (k @ '' = '' @ t) = k @ '' = '' @ t"
    using assms(2,4) c(3) k by (intro trim_id) simp
  have eq: "k @ '' = '' @ t = (k @ '' '') @ CHR ''='' # (CHR '' '' # t)" by simp
  have "CHR ''='' \<notin> set (k @ '' '')" using key_ok_facts(6)[OF assms(1)] by simp
  then have sp: "split_on (CHR ''='') (k @ '' = '' @ t) = (k @ '' '') # split_on (CHR ''='') (CHR '' '' # t)"
    unfolding eq by (rule split_on_append_sep)
  have "trim (CHR '' '' # t) = t"
    using assms(2,3,4) trim_Cons_ws[of "CHR '' ''" t] trim_id[of t] by (simp add: is_js_ws_def)
  then have val: "trim (join_with (CHR ''='') (split_on (CHR ''='') (CHR '' '' # t))) = t"
    by (simp only: join_split)
  have pl: "parse_line st (k @ '' = '' @ t) = assign_line st (k @ '' = '' @ t)"
    using tr c k by (simp add: parse_line_def Let_def text_simps)
  show ?thesis
    unfolding pl assign_line_def sp list.case Let_def val trim_key_space[OF assms(1)] ..
qed

lemma parseToml_lines:
  "\<forall>l \<in> set ls. nl \<notin> set l \<Longrightarrow> parseToml (lines_text ls) = sbind (parse_lines init_state ls) (\<lambda>st. Inr (result st))"
  using split_on_lines[of ls nl "[]"] by (simp add: parseToml_def parse_lines_append)

lemma lex_str_shrinks:
  "lex_str x = Some (t, u, r) \<Longrightarrow>
   length t + length r < length x \<and> (bslash \<in> set x \<longrightarrow> bslash \<in> set r \<or> length t + length r + 1 < length x)"
proof (induction x arbitrary: t u r rule: lex_str.induct)
  case 1
  then show ?case by simp
next
  case (2 c s)
  show ?case
  proof (cases "c = dquote")
    case True
    then show ?thesis using "2.prems" by auto
  next
    case nq: False
    show ?thesis
    proof (cases "c = bslash")
      case True
      then obtain e s' where s: "s = e # s'" using "2.prems" nq by (cases s) auto
      show ?thesis
      proof (cases "e = CHR ''u''")
        case True
        then obtain n t' where h: "hex4 (take 4 s') = Some n" "lex_str (drop 4 s') = Some (t', u, r) \<or> (\<exists>u'. lex_str (drop 4 s') = Some (t', u', r))"
          "t = char_of n # t'"
          using "2.prems" nq \<open>c = bslash\<close> s by (auto split: option.splits)
        have "length (take 4 s') = 4" using h(1) by (simp add: hex4_def split: if_splits)
        then have "length (drop 4 s') + 4 = length s'" by simp
        moreover obtain u' where "lex_str (drop 4 s') = Some (t', u', r)" using h(2) by blast
        ultimately show ?thesis
          using "2.IH"(1)[OF nq \<open>c = bslash\<close> s True h(1)] h(3) s by fastforce
      next
        case False
        then obtain d t' where h: "unescape e = Some d" "lex_str s' = Some (t', u, r)" "t = d # t'"
          using "2.prems" nq \<open>c = bslash\<close> s by (auto split: option.splits)
        show ?thesis using "2.IH"(2)[OF nq \<open>c = bslash\<close> s False h(1) h(2)] h(3) s by simp
      qed
    next
      case nb: False
      then have lo: "\<not> (of_char c :: nat) < 32" using "2.prems" nq by (auto split: if_splits)
      then obtain t' where h: "lex_str s = Some (t', u, r)" "t = c # t'"
        using "2.prems" nq nb by (auto split: if_splits)
      show ?thesis using "2.IH"(3)[OF nq nb lo h(1)] h(2) nb by auto
    qed
  qed
qed

lemma json_parse_quoted_shrinks:
  assumes "json_parse (dquote # s @ [dquote]) = JOk w" "bslash \<in> set s"
  shows "\<exists>s'. w = JStr s' \<and> length s' < length s"
proof -
  obtain t u r where l: "lex_str (s @ [dquote]) = Some (t, u, r)" and r: "skip_ws r = []" and w: "w = JStr t"
    using assms(1) by (auto simp: json_parse_quoted_def split: option.splits if_splits)
  have "bslash \<notin> set r"
    using r unfolding skip_ws_def dropWhile_eq_Nil_conv by (auto simp: is_json_ws_def)
  then show ?thesis using lex_str_shrinks[OF l] assms(2) w by auto
qed

text \<open>
  C17: contrary to the specification's "total function", \<open>parseToml\<close> throws a
  \<open>TypeError\<close> on every text that assigns a scalar other than an array to a key,
  opens a section \<open>[key]\<close> on it and then assigns any value in it: the header
  finds the key (line 83) and makes the scalar the current section (line 86), and
  writing a property of a primitive or \<open>null\<close> throws in strict mode, in the
  \<open>try\<close> and again in the \<open>catch\<close> (lines 92--96).
\<close>

theorem parseToml_section_through_scalar:
  assumes "key_ok k" "scalar_ok v" "\<forall>xs. v \<noteq> JArr xs" "key_ok k2"
    "t \<noteq> []" "\<not> is_js_ws (hd t)" "\<not> is_js_ws (last t)" "nl \<notin> set t" "json_parse t \<noteq> JUnsupported"
  shows "parseToml (lines_text [assign_text (k, v), CHR ''['' # k @ '']'', k2 @ '' = '' @ t]) = Inl TypeError"
proof -
  let ?st1 = "init_state\<lparr>result := JObj [(k, v)]\<rparr>"
  have kp: "k \<noteq> ''__proto__''" "k2 \<noteq> ''__proto__''" using key_ok_facts(9) assms(1,4) by auto
  have l1: "parse_line init_state (assign_text (k, v)) = Inr ?st1"
    using parse_assign[of init_state "[]" k v] assms(1,2) by (simp add: init_state_def obj_define_def)
  have "CHR ''.'' \<notin> set k" using key_ok_facts(7)[OF assms(1)] .
  then have l2: "parse_line ?st1 (CHR ''['' # k @ '']'') =
      Inr (?st1\<lparr>currentSection := [k], currentPath := [k], currentArray := None\<rparr>)"
    using parse_line_table_header[OF assms(1)] split_on_no_sep
    by (simp add: section_header_def has_property_def Let_def)
  let ?st2 = "?st1\<lparr>currentSection := [k], currentPath := [k], currentArray := None\<rparr>"
  have sc: "set_current ?st2 k2 x = Inl TypeError" for x
    using assms(2,3) kp by (cases v) (simp_all add: set_current_def init_state_def assign_def)
  have l3: "parse_line ?st2 (k2 @ '' = '' @ t) = Inl TypeError"
    using parse_line_assign_raw[OF assms(4-7), of ?st2] assms(9) sc
    by (simp split: parse_outcome.splits)
  have nls: "\<forall>l \<in> set [assign_text (k, v), CHR ''['' # k @ '']'', k2 @ '' = '' @ t]. nl \<notin> set l"
    using nl_assign_text[OF assms(1,2)] key_ok_facts(8) assms(1,4,8) by simp
  show ?thesis using parseToml_lines[OF nls] l1 l2 l3 by simp
qed

theorem parseToml_section_through_scalar_witness:
  "parseToml (lines_text [assign_text (''a'', JNum 1 0), CHR ''['' # ''a'' @ '']'', ''b'' @ '' = '' @ ''2'']) = Inl TypeError"
proof -
  have h: "key_ok ''a''" "scalar_ok (JNum 1 0)" by code_simp+
  have n: "\<forall>xs. JNum 1 0 \<noteq> JArr xs" by simp
  have h2: "key_ok ''b''" "''2'' \<noteq> []" "\<not> is_js_ws (hd ''2'')" "\<not> is_js_ws (last ''2'')"
    "nl \<notin> set ''2''" "json_parse ''2'' \<noteq> JUnsupported"
    by code_simp+
  show ?thesis using parseToml_section_through_scalar[OF h n h2] .
qed

text \<open>
  C18: an assignment whose value \<open>JSON.parse\<close> rejects is kept as text (lines
  92--96), with one leading and one trailing double quote removed and every other
  character, quotes included, kept: on a one-line input \<open>key = value\<close> the document
  is \<open>{key: value}\<close> with the value so stripped.
\<close>

theorem parseToml_fallback:
  assumes "key_ok k" "t \<noteq> []" "\<not> is_js_ws (hd t)" "\<not> is_js_ws (last t)" "nl \<notin> set t"
    "json_parse t = JSyntaxError"
  shows "parseToml (k @ '' = '' @ t) = Inr (JObj [(k, JStr (strip_quotes t))])"
proof -
  have kp: "k \<noteq> ''__proto__''" using key_ok_facts(9)[OF assms(1)] .
  have "parse_line init_state (k @ '' = '' @ t) = Inr (init_state\<lparr>result := JObj [(k, JStr (strip_quotes t))]\<rparr>)"
    using parse_line_assign_raw[OF assms(1-4), of init_state] assms(6) set_current_obj[of init_state "[]" k] kp
    by (simp add: init_state_def obj_define_def)
  moreover have "split_on nl (k @ '' = '' @ t) = [k @ '' = '' @ t]"
    using assms(5) key_ok_facts(8)[OF assms(1)] by (intro split_on_no_sep) simp
  ultimately show ?thesis by (simp add: parseToml_def)
qed

theorem parseToml_fallback_witness:
  "parseToml (''quoted'' @ '' = '' @ dquote # ''it'' @ dquote # ''s'' @ [dquote]) =
     Inr (JObj [(''quoted'', JStr (''it'' @ dquote # ''s''))])"
proof -
  have h: "key_ok ''quoted''" "dquote # ''it'' @ dquote # ''s'' @ [dquote] \<noteq> []"
    "\<not> is_js_ws (hd (dquote # ''it'' @ dquote # ''s'' @ [dquote]))"
    "\<not> is_js_ws (last (dquote # ''it'' @ dquote # ''s'' @ [dquote]))"
    "nl \<notin> set (dquote # ''it'' @ dquote # ''s'' @ [dquote])"
    "json_parse (dquote # ''it'' @ dquote # ''s'' @ [dquote]) = JSyntaxError"
    by code_simp+
  have "strip_quotes (dquote # ''it'' @ dquote # ''s'' @ [dquote]) = ''it'' @ dquote # ''s''"
    by code_simp
  then show ?thesis using parseToml_fallback[OF h] by simp
qed

text \<open>
  C19: a string holding a backslash does not survive whenever \<open>JSON.parse\<close>
  accepts its printed form: \<open>toToml\<close> prints it between quotes without escaping
  (line 36), \<open>parseToml\<close> hands the quoted text to \<open>JSON.parse\<close> (line 93), which
  reads each backslash as the start of an escape and returns a shorter string.
\<close>

theorem toml_backslash_string:
  assumes "key_ok k" "nl \<notin> set s" "bslash \<in> set s" "json_parse (dquote # s @ [dquote]) = JOk w"
  shows "(case toToml (JObj [(k, JStr s)]) of Inl e \<Rightarrow> Inl e | Inr txt \<Rightarrow> parseToml txt) = Inr (JObj [(k, w)])
    \<and> w \<noteq> JStr s"
proof -
  have kp: "k \<noteq> ''__proto__''" using key_ok_facts(9)[OF assms(1)] .
  let ?l = "k @ '' = '' @ (dquote # s @ [dquote])"
  have tt: "toToml (JObj [(k, JStr s)]) = Inr (lines_text [?l])"
    using kp by (simp add: group_entries_def group_entry_def own_set_def obj_define_def scalar_line_def)
  have "parse_line init_state ?l = Inr (init_state\<lparr>result := JObj [(k, w)]\<rparr>)"
    using parse_line_assign_raw[OF assms(1), of "dquote # s @ [dquote]" init_state] assms(4)
      set_current_obj[of init_state "[]" k] kp
    by (simp add: init_state_def obj_define_def is_js_ws_def)
  moreover have "nl \<notin> set ?l" using assms(2) key_ok_facts(8)[OF assms(1)] by simp
  ultimately have "parseToml (lines_text [?l]) = Inr (JObj [(k, w)])"
    using parseToml_lines[of "[?l]"] by simp
  moreover have "w \<noteq> JStr s" using json_parse_quoted_shrinks[OF assms(4,3)] by auto
  ultimately show ?thesis using tt by simp
qed

theorem toml_backslash_string_witness:
  "(case toToml (JObj [(''path'', JStr (''C:'' @ bslash # ''new''))]) of Inl e \<Rightarrow> Inl e | Inr txt \<Rightarrow> parseToml txt)
     = Inr (JObj [(''path'', JStr (''C:'' @ nl # ''ew''))]) \<and>
   JStr (''C:'' @ nl # ''ew'') \<noteq> JStr (''C:'' @ bslash # ''new'')"
proof -
  have h: "key_ok ''path''" "nl \<notin> set (''C:'' @ bslash # ''new'')" "bslash \<in> set (''C:'' @ bslash # ''new'')"
    "json_parse (dquote # (''C:'' @ bslash # ''new'') @ [dquote]) = JOk (JStr (''C:'' @ nl # ''ew''))"
    by code_simp+
  show ?thesis using toml_backslash_string[OF h] .
qed

text \<open>
  C20: a table nested in a table comes back at the top level: for every table
  \<open>k1\<close> holding only a table \<open>k2\<close> of scalars, \<open>toToml\<close> prints the inner
  header with its own key only (line 44 passes no path to the recursive call), and
  \<open>parseToml\<close> resolves \<open>[k2]\<close> from the root, so the result has an empty
  \<open>k1\<close> and \<open>k2\<close> beside it.
\<close>

theorem toml_nested_table:
  assumes "key_ok k1" "key_ok k2" "section_ok qs" "js_ordered [(k1, JObj []), (k2, JObj qs)]"
  shows "(case toToml (JObj [(k1, JObj [(k2, JObj qs)])]) of Inl e \<Rightarrow> Inl e | Inr s \<Rightarrow> parseToml s)
     = Inr (JObj [(k1, JObj []), (k2, JObj qs)])"
proof -
  let ?P = "[(k1, JObj []), (k2, JObj qs)]"
  have kp: "k1 \<noteq> ''__proto__''" "k2 \<noteq> ''__proto__''" using key_ok_facts(9) assms(1,2) by auto
  have doc: "doc_ok ?P"
    using assms by (simp add: doc_ok_def entry_ok_def section_ok_def js_ordered_def)
  have "group_entries ?P = ([], ?P, [])"
    using group_entries_acc[of "[]" ?P "[]" "[]"] assms(4) kp
    by (simp add: group_entries_def is_simple_def is_table_def is_table_array_def js_ordered_def)
  then have "toToml (JObj ?P) = toToml (JObj [(k1, JObj [(k2, JObj qs)])])"
    using kp by (simp add: group_entries_def group_entry_def own_set_def obj_define_def sbind_def
        split: sum.splits)
  moreover have "regroup ?P = ?P"
    by (simp add: regroup_def group_ref_def is_simple_def is_table_def is_table_array_def)
  ultimately show ?thesis
    using toml_roundtrip_regroup[OF doc] define_all_Nil_ordered[OF assms(4)] by auto
qed

theorem toml_nested_table_witness:
  "(case toToml (JObj [(''db'', JObj [(''opts'', JObj [(''x'', JBool True)])])]) of Inl e \<Rightarrow> Inl e | Inr s \<Rightarrow> parseToml s)
     = Inr (JObj [(''db'', JObj []), (''opts'', JObj [(''x'', JBool True)])])"
proof -
  have h: "key_ok ''db''" "key_ok ''opts''" "section_ok [(''x'', JBool True)]"
    "js_ordered [(''db'', JObj []), (''opts'', JObj [(''x'', JBool True)])]"
    by code_simp+
  show ?thesis using toml_nested_table[OF h] .
qed

end
