(* ===== verification/WebRuntime.thy ===== *)
theory WebRuntime
  imports TomlSerialize
begin

text \<open>
  What the React components of both front ends share: the exceptions their handlers
  catch, the outcome of a \<open>fetch\<close> and of \<open>response.json()\<close>, the JavaScript
  conversions the handlers apply to server data (truthiness for \<open>||\<close> and \<open>&&\<close>,
  \<open>String(v)\<close> inside template literals, property reads), the user-visible messages,
  and the calls a child component makes on its parent's callbacks. Each component then
  has a state record, one function per handler and a step function over events; a
  handler that awaits is cut at the \<open>await\<close>: its first part runs on the event that
  starts it and leaves a pending request with the continuation to run when the request
  settles, in any order relative to other events.
\<close>

section \<open>Exceptions\<close>

text \<open>
  A thrown value: an \<open>Error\<close> object with its name and message (thrown by
  \<open>fetch\<close>, by \<open>response.json()\<close> or by \<open>new Error(msg)\<close> in the code), or an
  exception of the modelled runtime (\<open>toToml\<close>, \<open>parseToml\<close>, a property read of
  \<open>null\<close>), whose message is the engine's text and is kept symbolic.
\<close>

datatype exn = Exn string string | Runtime js_error

definition error_obj :: "string \<Rightarrow> exn" where
  "error_obj msg = Exn ''Error'' msg"

definition lift_js :: "js_error + 'a \<Rightarrow> exn + 'a" where
  "lift_js r = (case r of Inl e \<Rightarrow> Inl (Runtime e) | Inr a \<Rightarrow> Inr a)"

section \<open>Messages\<close>

text \<open>
  The text of a message: literal, or a prefix followed by the caught error, either as
  \<open>error instanceof Error ? error.message : 'Unknown error'\<close> (every value thrown
  here is an \<open>Error\<close>) or as \<open>`${error}`\<close> (\<open>Error.prototype.toString\<close>).
\<close>

datatype msg_text = Txt string | ErrMessage string exn | ErrString string exn

datatype msg_type = Success | Error | Warning | Info

datatype message = Message msg_text msg_type

fun render_text :: "msg_text \<Rightarrow> string option" where
  "render_text (Txt s) = Some s"
| "render_text (ErrMessage p (Exn n m)) = Some (p @ m)"
| "render_text (ErrString p (Exn n m)) = Some (p @ (if m = [] then n else n @ '': '' @ m))"
| "render_text (ErrMessage p (Runtime e)) = None"
| "render_text (ErrString p (Runtime e)) = None"

text \<open>What a child component calls on its parent: \<open>showMessage\<close>, \<open>onConnected\<close>, \<open>onSuccess\<close>.\<close>

datatype callback = ShowMessage message | OnConnected | OnSuccess

section \<open>Requests and responses\<close>

record http_request =
  req_method :: string
  url :: string
  body :: "string option"

definition get_request :: "string \<Rightarrow> http_request" where
  "get_request u = \<lparr>req_method = ''GET'', url = u, body = None\<rparr>"

definition post_request :: "string \<Rightarrow> http_request" where
  "post_request u = \<lparr>req_method = ''POST'', url = u, body = None\<rparr>"

definition post_json :: "string \<Rightarrow> json \<Rightarrow> http_request" where
  "post_json u v = \<lparr>req_method = ''POST'', url = u, body = Some (json_stringify v)\<rparr>"

text \<open>
  A settled \<open>fetch\<close>: rejected (\<open>Inl\<close>, a network error) or a response with its
  \<open>ok\<close> flag and what \<open>response.json()\<close> settles to.
\<close>

datatype response = Response bool "exn + json"

type_synonym fetch_outcome = "exn + response"

fun resp_ok :: "response \<Rightarrow> bool" where
  "resp_ok (Response ok b) = ok"

fun resp_json :: "response \<Rightarrow> exn + json" where
  "resp_json (Response ok b) = b"

section \<open>JavaScript conversions\<close>

text \<open>\<open>Boolean(v)\<close>, as \<open>||\<close>, \<open>&&\<close> and \<open>!\<close> test it.\<close>

fun js_truthy :: "json \<Rightarrow> bool" where
  "js_truthy JNull = False"
| "js_truthy (JBool b) = b"
| "js_truthy (JNum m e) = (m \<noteq> 0)"
| "js_truthy (JStr s) = (s \<noteq> [])"
| "js_truthy (JArr xs) = True"
| "js_truthy (JObj ps) = True"

text \<open>\<open>undefined\<close> is falsy; a present value is tested as above.\<close>

definition truthy_opt :: "json option \<Rightarrow> bool" where
  "truthy_opt v = (case v of None \<Rightarrow> False | Some x \<Rightarrow> js_truthy x)"

text \<open>
  \<open>v.key\<close> for a key that is not \<open>length\<close> nor a name inherited from a prototype:
  own properties of objects, indices of arrays and strings; reading from \<open>null\<close>
  throws. \<open>None\<close> is \<open>undefined\<close>.
\<close>

fun get_prop :: "json \<Rightarrow> string \<Rightarrow> exn + json option" where
  "get_prop JNull k = Inl (Runtime TypeError)"
| "get_prop (JObj ps) k = Inr (map_of ps k)"
| "get_prop (JArr xs) k =
     Inr (if is_array_index k \<and> digits_val k < length xs then Some (xs ! digits_val k) else None)"
| "get_prop (JStr s) k =
     Inr (if is_array_index k \<and> digits_val k < length s then Some (JStr [s ! digits_val k]) else None)"
| "get_prop (JNum m e) k = Inr None"
| "get_prop (JBool b) k = Inr None"

text \<open>\<open>a || b\<close> for a property \<open>a\<close> that may be \<open>undefined\<close>.\<close>

definition js_or :: "json option \<Rightarrow> json \<Rightarrow> json" where
  "js_or a b = (case a of Some x \<Rightarrow> if js_truthy x then x else b | None \<Rightarrow> b)"

text \<open>\<open>`${v}`\<close> of a property that may be \<open>undefined\<close>; \<open>js_template\<close> is \<open>String(v)\<close>.\<close>

definition template_opt :: "json option \<Rightarrow> string" where
  "template_opt v = (case v of None \<Rightarrow> ''undefined'' | Some x \<Rightarrow> js_template x)"

section \<open>Pending requests\<close>

text \<open>A settled request leaves the list of pending ones: \<open>xs\<close> without its \<open>i\<close>-th element.\<close>

definition remove_nth :: "nat \<Rightarrow> 'a list \<Rightarrow> 'a list" where
  "remove_nth i xs = take i xs @ drop (Suc i) xs"

definition count_of :: "('a \<Rightarrow> bool) \<Rightarrow> 'a list \<Rightarrow> nat" where
  "count_of P xs = length (filter P xs)"

section \<open>Lemmas\<close>

lemma lift_js_simps [simp]:
  "lift_js (Inl e) = Inl (Runtime e)" "lift_js (Inr a) = Inr a"
  by (simp_all add: lift_js_def)

lemma count_of_append [simp]: "count_of P (xs @ ys) = count_of P xs + count_of P ys"
  by (simp add: count_of_def)

lemma count_of_Nil [simp]: "count_of P [] = 0"
  by (simp add: count_of_def)

lemma count_of_Cons [simp]: "count_of P (x # xs) = (if P x then Suc (count_of P xs) else count_of P xs)"
  by (simp add: count_of_def)

lemma count_of_remove_nth:
  "i < length xs \<Longrightarrow> count_of P (remove_nth i xs) + (if P (xs ! i) then 1 else 0) = count_of P xs"
proof -
  assume i: "i < length xs"
  then have "xs = take i xs @ xs ! i # drop (Suc i) xs" by (simp add: id_take_nth_drop)
  then have "count_of P xs = count_of P (take i xs @ xs ! i # drop (Suc i) xs)" by simp
  then show ?thesis by (simp add: remove_nth_def)
qed

lemma count_of_pos_iff: "0 < count_of P xs \<longleftrightarrow> (\<exists>x \<in> set xs. P x)"
  by (simp add: count_of_def filter_empty_conv)

lemma set_remove_nth: "set (remove_nth i xs) \<subseteq> set xs"
  by (auto simp: remove_nth_def dest: in_set_takeD in_set_dropD)

lemma nth_in_remove_nth: "j < length xs \<Longrightarrow> j \<noteq> i \<Longrightarrow> xs ! j \<in> set (remove_nth i xs)"
proof (cases "j < i")
  case True
  assume "j < length xs"
  then have "take i xs ! j \<in> set (take i xs)" using True by (intro nth_mem) simp
  then show ?thesis using True by (simp add: remove_nth_def)
next
  case False
  assume "j < length xs" "j \<noteq> i"
  then have "drop (Suc i) xs ! (j - Suc i) \<in> set (drop (Suc i) xs)" using False by (intro nth_mem) simp
  moreover have "xs ! j = drop (Suc i) xs ! (j - Suc i)" using False \<open>j \<noteq> i\<close> \<open>j < length xs\<close> by simp
  ultimately show ?thesis by (simp add: remove_nth_def)
qed

lemma length_remove_nth [simp]: "i < length xs \<Longrightarrow> length (remove_nth i xs) = length xs - 1"
  by (simp add: remove_nth_def)

end
