(* ===== verification/ConfigTab.thy ===== *)
theory ConfigTab
  imports WebRuntime TomlRoundtrip
begin

text \<open>
  The component \<open>ConfigTab\<close> of \<open>ConfigTab.tsx\<close> (lines 103--178): its state
  (\<open>config\<close>, \<open>loading\<close>, \<open>saving\<close>) with the requests it has in flight, the
  handler \<open>loadConfig\<close> run once on mount, \<open>saveConfig\<close> on the Save button,
  the text area's \<open>onChange\<close>, and the step function that accepts exactly the events
  the rendered page offers. \<open>loadConfig\<close> prints the fetched object with
  \<open>toToml\<close>; \<open>saveConfig\<close> parses the text with \<open>parseToml\<close> and posts
  \<open>JSON.stringify\<close> of the result, so this is where the codec meets the server.
\<close>

section \<open>State\<close>

datatype cfg_cont = LoadConfig | SaveConfig

record cfg_state =
  config :: string
  loading :: bool
  saving :: bool
  cfg_pending :: "(http_request \<times> cfg_cont) list"

definition config_url :: string where
  "config_url = ''/config''"

section \<open>Handlers\<close>

text \<open>Lines 116--119: \<open>setLoading(true)\<close> and the request; the rest waits for it.\<close>

definition loadConfig :: "cfg_state \<Rightarrow> cfg_state" where
  "loadConfig st =
     st\<lparr>loading := True, cfg_pending := cfg_pending st @ [(get_request config_url, LoadConfig)]\<rparr>"

text \<open>Lines 108--114: the initial state, and the effect run on mount.\<close>

definition cfg_init :: cfg_state where
  "cfg_init = loadConfig \<lparr>config = [], loading = True, saving = False, cfg_pending = []\<rparr>"

text \<open>
  Lines 120--127, when the request settles: \<open>response.json()\<close> (the status is not
  looked at), \<open>toToml\<close>, then \<open>setConfig\<close>; any exception becomes a message, and
  \<open>finally\<close> clears \<open>loading\<close>.
\<close>

definition loadConfig_done :: "cfg_state \<Rightarrow> fetch_outcome \<Rightarrow> cfg_state \<times> callback list" where
  "loadConfig_done st r =
     (case sbind r (\<lambda>resp. sbind (resp_json resp) (\<lambda>data. lift_js (toToml data))) of
        Inr s \<Rightarrow> (st\<lparr>config := s, loading := False\<rparr>, [])
      | Inl e \<Rightarrow> (st\<lparr>loading := False\<rparr>,
                  [ShowMessage (Message (ErrMessage ''Failed to load configuration: '' e) Error)]))"

text \<open>
  Lines 130--139 and 145--150: \<open>setSaving(true)\<close>, \<open>parseToml(config)\<close> and the
  request. An exception of the parser is caught before any \<open>await\<close>, so the whole
  handler, \<open>finally\<close> included, runs at once.
\<close>

definition saveConfig :: "cfg_state \<Rightarrow> cfg_state \<times> callback list" where
  "saveConfig st =
     (case parseToml (config st) of
        Inl e \<Rightarrow> (st\<lparr>saving := False\<rparr>,
                  [ShowMessage (Message (ErrMessage ''Failed to save configuration: '' (Runtime e)) Error)])
      | Inr parsed \<Rightarrow>
          (st\<lparr>saving := True, cfg_pending := cfg_pending st @ [(post_json config_url parsed, SaveConfig)]\<rparr>, []))"

text \<open>Lines 140--150, when the request settles.\<close>

definition saveConfig_done :: "cfg_state \<Rightarrow> fetch_outcome \<Rightarrow> cfg_state \<times> callback list" where
  "saveConfig_done st r =
     (st\<lparr>saving := False\<rparr>,
      case sbind r (\<lambda>resp. if resp_ok resp then Inr () else Inl (error_obj ''Failed to save'')) of
        Inr _ \<Rightarrow> [ShowMessage (Message (Txt ''Configuration saved successfully'') Success)]
      | Inl e \<Rightarrow> [ShowMessage (Message (ErrMessage ''Failed to save configuration: '' e) Error)])"

section \<open>Events\<close>

text \<open>
  The user edits the text or clicks Save; a pending request settles. Lines 153--177:
  while \<open>loading\<close> only the spinner is rendered, so neither the text area nor the
  button exists; the button is disabled while \<open>saving\<close>. \<open>None\<close>: the event
  cannot happen in this state.
\<close>

datatype cfg_event = EditConfig string | ClickSave | CfgSettle nat fetch_outcome

fun cfg_step :: "cfg_state \<Rightarrow> cfg_event \<Rightarrow> (cfg_state \<times> callback list) option" where
  "cfg_step st (EditConfig s) = (if loading st then None else Some (st\<lparr>config := s\<rparr>, []))"
| "cfg_step st ClickSave = (if loading st \<or> saving st then None else Some (saveConfig st))"
| "cfg_step st (CfgSettle i r) =
     (if i < length (cfg_pending st) then
        (let st' = st\<lparr>cfg_pending := remove_nth i (cfg_pending st)\<rparr> in
         Some (case snd (cfg_pending st ! i) of
                 LoadConfig \<Rightarrow> loadConfig_done st' r
               | SaveConfig \<Rightarrow> saveConfig_done st' r))
      else None)"

text \<open>A sequence of events from a state, with the callbacks made on the way.\<close>

fun cfg_run :: "cfg_state \<Rightarrow> cfg_event list \<Rightarrow> (cfg_state \<times> callback list) option" where
  "cfg_run st [] = Some (st, [])"
| "cfg_run st (ev # evs) =
     (case cfg_step st ev of
        None \<Rightarrow> None
      | Some (st1, cbs1) \<Rightarrow>
          (case cfg_run st1 evs of None \<Rightarrow> None | Some (st2, cbs2) \<Rightarrow> Some (st2, cbs1 @ cbs2)))"

inductive cfg_reach :: "cfg_state \<Rightarrow> bool" where
  cfg_reach_init: "cfg_reach cfg_init"
| cfg_reach_step: "cfg_reach st \<Longrightarrow> cfg_step st ev = Some (st', cbs) \<Longrightarrow> cfg_reach st'"

text \<open>
  The flags tell what is in flight: \<open>loading\<close> exactly while the load request is
  pending, \<open>saving\<close> exactly while a save request is, and never two of either.
\<close>

definition cfg_inv :: "cfg_state \<Rightarrow> bool" where
  "cfg_inv st \<longleftrightarrow>
     count_of (\<lambda>p. snd p = LoadConfig) (cfg_pending st) = (if loading st then 1 else 0) \<and>
     count_of (\<lambda>p. snd p = SaveConfig) (cfg_pending st) = (if saving st then 1 else 0)"

section \<open>Lemmas\<close>

lemma cfg_run_reach: "cfg_reach st \<Longrightarrow> cfg_run st evs = Some (st', cbs) \<Longrightarrow> cfg_reach st'"
proof (induction evs arbitrary: st cbs)
  case Nil
  then show ?case by simp
next
  case (Cons ev evs)
  then obtain st1 cbs1 cbs2 where s1: "cfg_step st ev = Some (st1, cbs1)"
    and r: "cfg_run st1 evs = Some (st', cbs2)"
    by (auto split: option.splits prod.splits)
  have "cfg_reach st1" using Cons.prems(1) s1 by (rule cfg_reach_step)
  then show ?case using Cons.IH r by blast
qed

lemma cfg_run_append:
  "cfg_run st (evs1 @ evs2) =
     (case cfg_run st evs1 of None \<Rightarrow> None
      | Some (st1, cbs1) \<Rightarrow> (case cfg_run st1 evs2 of None \<Rightarrow> None | Some (st2, cbs2) \<Rightarrow> Some (st2, cbs1 @ cbs2)))"
  by (induction evs1 arbitrary: st) (auto split: option.splits prod.splits)

lemma loadConfig_done_pending: "cfg_pending (fst (loadConfig_done st r)) = cfg_pending st"
  by (simp add: loadConfig_done_def split: sum.splits)

lemma loadConfig_done_flags: "\<not> loading (fst (loadConfig_done st r)) \<and> saving (fst (loadConfig_done st r)) = saving st"
  by (simp add: loadConfig_done_def split: sum.splits)

lemma saveConfig_done_state: "fst (saveConfig_done st r) = st\<lparr>saving := False\<rparr>"
  by (simp add: saveConfig_done_def)

lemma cfg_inv_init: "cfg_inv cfg_init"
  by (simp add: cfg_inv_def cfg_init_def loadConfig_def)

lemma cfg_inv_step: "cfg_inv st \<Longrightarrow> cfg_step st ev = Some (st', cbs) \<Longrightarrow> cfg_inv st'"
proof (cases ev)
  case (EditConfig s)
  assume "cfg_inv st" "cfg_step st ev = Some (st', cbs)"
  then show ?thesis using EditConfig by (auto simp: cfg_inv_def split: if_splits)
next
  case ClickSave
  assume "cfg_inv st" "cfg_step st ev = Some (st', cbs)"
  then show ?thesis using ClickSave
    by (auto simp: cfg_inv_def saveConfig_def split: if_splits sum.splits)
next
  case (CfgSettle i r)
  assume inv: "cfg_inv st" and s: "cfg_step st ev = Some (st', cbs)"
  then have i: "i < length (cfg_pending st)" using CfgSettle by (simp split: if_splits)
  let ?ps = "remove_nth i (cfg_pending st)"
  have cL: "count_of (\<lambda>p. snd p = LoadConfig) ?ps + (if snd (cfg_pending st ! i) = LoadConfig then 1 else 0)
      = count_of (\<lambda>p. snd p = LoadConfig) (cfg_pending st)"
    by (rule count_of_remove_nth[OF i])
  have cS: "count_of (\<lambda>p. snd p = SaveConfig) ?ps + (if snd (cfg_pending st ! i) = SaveConfig then 1 else 0)
      = count_of (\<lambda>p. snd p = SaveConfig) (cfg_pending st)"
    by (rule count_of_remove_nth[OF i])
  show ?thesis
  proof (cases "snd (cfg_pending st ! i)")
    case LoadConfig
    then have "st' = fst (loadConfig_done (st\<lparr>cfg_pending := ?ps\<rparr>) r)" using s CfgSettle i by auto
    then show ?thesis using inv cL cS LoadConfig loadConfig_done_pending loadConfig_done_flags
      by (simp add: cfg_inv_def split: if_splits)
  next
    case SaveConfig
    then have "st' = fst (saveConfig_done (st\<lparr>cfg_pending := ?ps\<rparr>) r)" using s CfgSettle i by auto
    then show ?thesis using inv cL cS SaveConfig
      by (simp add: cfg_inv_def saveConfig_done_state split: if_splits)
  qed
qed

lemma cfg_reach_inv: "cfg_reach st \<Longrightarrow> cfg_inv st"
  by (induction rule: cfg_reach.induct) (auto intro: cfg_inv_init cfg_inv_step)

lemma cfg_load_then_save:
  assumes "toToml v = Inr s" "parseToml s = Inr w"
  shows "cfg_run cfg_init [CfgSettle 0 (Inr (Response ok (Inr v))), ClickSave] =
           Some (\<lparr>config = s, loading = False, saving = True,
                   cfg_pending = [(post_json config_url w, SaveConfig)]\<rparr>, [])"
  using assms
  by (simp add: cfg_init_def loadConfig_def loadConfig_done_def saveConfig_def remove_nth_def)

section \<open>Properties\<close>

text \<open>
  C5: in every reachable state at most one save request is in flight, and the Save
  button shows "Saving..." exactly while one is: \<open>finally\<close> clears \<open>saving\<close> on
  every path and the disabled button keeps a second click out.
\<close>

theorem configtab_one_save_in_flight:
  assumes "cfg_reach st"
  shows "count_of (\<lambda>p. snd p = SaveConfig) (cfg_pending st) \<le> 1 \<and>
         (saving st \<longleftrightarrow> (\<exists>p \<in> set (cfg_pending st). snd p = SaveConfig))"
proof -
  have "cfg_inv st" using assms by (rule cfg_reach_inv)
  then show ?thesis by (auto simp: cfg_inv_def count_of_pos_iff[symmetric] split: if_splits)
qed

theorem configtab_one_save_in_flight_witness:
  "cfg_reach \<lparr>config = ''a = 1\<newline>'', loading = False, saving = True,
              cfg_pending = [(post_json config_url (JObj [(''a'', JNum 1 0)]), SaveConfig)]\<rparr> \<and>
   count_of (\<lambda>p. snd p = SaveConfig) [(post_json config_url (JObj [(''a'', JNum 1 0)]), SaveConfig)] \<le> 1 \<and>
   (True \<longleftrightarrow> (\<exists>p \<in> set [(post_json config_url (JObj [(''a'', JNum 1 0)]), SaveConfig)]. snd p = SaveConfig))"
proof -
  have "cfg_run cfg_init [CfgSettle 0 (Inr (Response True (Inr (JObj [(''a'', JNum 1 0)])))), ClickSave] =
          Some (\<lparr>config = ''a = 1\<newline>'', loading = False, saving = True,
                  cfg_pending = [(post_json config_url (JObj [(''a'', JNum 1 0)]), SaveConfig)]\<rparr>, [])"
    by (rule cfg_load_then_save) code_simp+
  then have r: "cfg_reach \<lparr>config = ''a = 1\<newline>'', loading = False, saving = True,
              cfg_pending = [(post_json config_url (JObj [(''a'', JNum 1 0)]), SaveConfig)]\<rparr>"
    by (rule cfg_run_reach[OF cfg_reach_init])
  show ?thesis using configtab_one_save_in_flight[OF r] r by simp
qed

text \<open>
  C3: loading a configuration and saving it without an edit posts the object that was
  loaded, for every document the codec carries (\<open>doc_ok\<close>) whose entries are in
  the order \<open>toToml\<close> prints them: the component composed with \<open>toToml\<close>,
  \<open>parseToml\<close> and \<open>JSON.stringify\<close> leaves the server's configuration as it was.
\<close>

theorem configtab_save_unedited:
  assumes "doc_ok ps" "regroup ps = ps"
  shows "\<exists>st. cfg_run cfg_init [CfgSettle 0 (Inr (Response ok (Inr (JObj ps)))), ClickSave] = Some (st, []) \<and>
              cfg_pending st = [(post_json config_url (JObj ps), SaveConfig)]"
proof -
  obtain s where s: "toToml (JObj ps) = Inr s" "parseToml s = Inr (JObj (define_all [] (regroup ps)))"
    using toml_roundtrip_regroup[OF assms(1)] by blast
  have "define_all [] ps = ps" using assms(1) by (simp add: doc_ok_def define_all_Nil_ordered)
  then have "parseToml s = Inr (JObj ps)" using s(2) assms(2) by simp
  then show ?thesis using cfg_load_then_save[OF s(1)] by simp
qed

theorem configtab_save_unedited_witness:
  "doc_ok [(''host'', JStr ''lab''), (''db'', JObj [(''port'', JNum 5432 0)])] \<and>
   regroup [(''host'', JStr ''lab''), (''db'', JObj [(''port'', JNum 5432 0)])] =
     [(''host'', JStr ''lab''), (''db'', JObj [(''port'', JNum 5432 0)])] \<and>
   (\<exists>st. cfg_run cfg_init [CfgSettle 0 (Inr (Response True (Inr (JObj [(''host'', JStr ''lab''), (''db'', JObj [(''port'', JNum 5432 0)])])))), ClickSave] = Some (st, []) \<and>
         cfg_pending st = [(post_json config_url (JObj [(''host'', JStr ''lab''), (''db'', JObj [(''port'', JNum 5432 0)])]), SaveConfig)])"
proof -
  have h1: "doc_ok [(''host'', JStr ''lab''), (''db'', JObj [(''port'', JNum 5432 0)])]" by code_simp
  have h2: "regroup [(''host'', JStr ''lab''), (''db'', JObj [(''port'', JNum 5432 0)])] =
     [(''host'', JStr ''lab''), (''db'', JObj [(''port'', JNum 5432 0)])]" by code_simp
  show ?thesis using configtab_save_unedited[OF h1 h2] h1 h2 by blast
qed

end
