(* ===== verification/ServicesTab.thy ===== *)
theory ServicesTab
  imports WebRuntime
begin

text \<open>
  The component \<open>ServicesTab\<close> of \<open>ServicesTab.tsx\<close>: the lists of available and
  downloaded services as the server sent them (JSON values: the code does not check
  their shape), the \<open>loading\<close> flag, and the requests in flight. \<open>loadServices\<close>
  runs on mount and again, without being awaited, after each successful download or
  delete, so several loads can be in flight at once and settle in any order.
\<close>

section \<open>State\<close>

datatype svc_cont = LoadServices | Download string | Delete string

record svc_state =
  availableServices :: json
  downloadedServices :: json
  svc_loading :: bool
  svc_pending :: "(http_request list \<times> svc_cont) list"

section \<open>Handlers\<close>

text \<open>
  Lines 29--35: \<open>setLoading(true)\<close> and the two requests of \<open>Promise.all\<close>; they
  settle together, with the first rejection or both bodies.
\<close>

definition loadServices :: "svc_state \<Rightarrow> svc_state" where
  "loadServices st =
     st\<lparr>svc_loading := True,
        svc_pending := svc_pending st @
          [([get_request ''/services/available'', get_request ''/services/downloaded''], LoadServices)]\<rparr>"

text \<open>Lines 20--27: the initial state and the effect run on mount.\<close>

definition svc_init :: svc_state where
  "svc_init = loadServices \<lparr>availableServices = JArr [], downloadedServices = JArr [],
                             svc_loading = True, svc_pending = []\<rparr>"

text \<open>
  Lines 36--43, when both requests have settled: \<open>r.json()\<close> of each, whatever the
  status, is stored; a rejection becomes a message; \<open>finally\<close> clears \<open>loading\<close>.
\<close>

definition loadServices_done :: "svc_state \<Rightarrow> exn + (response \<times> response) \<Rightarrow> svc_state \<times> callback list" where
  "loadServices_done st r =
     (case sbind r (\<lambda>(ra, rd). sbind (resp_json ra) (\<lambda>a. sbind (resp_json rd) (\<lambda>d. Inr (a, d)))) of
        Inr (a, d) \<Rightarrow> (st\<lparr>availableServices := a, downloadedServices := d, svc_loading := False\<rparr>, [])
      | Inl e \<Rightarrow> (st\<lparr>svc_loading := False\<rparr>,
                  [ShowMessage (Message (ErrMessage ''Failed to load services: '' e) Error)]))"

text \<open>Lines 46--50 and 64--70: the requests, the name spliced into the path as it is.\<close>

definition handleDownload :: "svc_state \<Rightarrow> string \<Rightarrow> svc_state" where
  "handleDownload st name =
     st\<lparr>svc_pending := svc_pending st @ [([post_request (''/services/download/'' @ name)], Download name)]\<rparr>"

definition handleDelete :: "svc_state \<Rightarrow> string \<Rightarrow> bool \<Rightarrow> svc_state" where
  "handleDelete st name confirmed =
     (if \<not> confirmed then st
      else st\<lparr>svc_pending := svc_pending st @ [([post_request (''/services/delete/'' @ name)], Delete name)]\<rparr>)"

text \<open>
  Lines 52--61 and 72--81: on success a message and a new \<open>loadServices()\<close>; on a
  failed status or a rejection an error message.
\<close>

definition action_done :: "svc_state \<Rightarrow> string \<Rightarrow> string \<Rightarrow> string \<Rightarrow> string \<Rightarrow> fetch_outcome \<Rightarrow> svc_state \<times> callback list" where
  "action_done st okText failText prefix name r =
     (case sbind r (\<lambda>resp. if resp_ok resp then Inr () else Inl (error_obj failText)) of
        Inr _ \<Rightarrow> (loadServices st,
                  [ShowMessage (Message (Txt (''Service '' @ name @ okText)) Success)])
      | Inl e \<Rightarrow> (st, [ShowMessage (Message (ErrMessage prefix e) Error)]))"

definition handleDownload_done :: "svc_state \<Rightarrow> string \<Rightarrow> fetch_outcome \<Rightarrow> svc_state \<times> callback list" where
  "handleDownload_done st name r =
     action_done st '' downloaded successfully'' ''Download failed'' ''Failed to download service: '' name r"

definition handleDelete_done :: "svc_state \<Rightarrow> string \<Rightarrow> fetch_outcome \<Rightarrow> svc_state \<times> callback list" where
  "handleDelete_done st name r =
     action_done st '' deleted successfully'' ''Delete failed'' ''Failed to delete service: '' name r"

section \<open>Rendering\<close>

text \<open>
  Lines 99--140 render each list as \<open>list.length === 0\<close> ? empty state :
  \<open>list.map(...)\<close>, a card per element reading \<open>service.name\<close>. Rendering
  succeeds on an array whose elements are not \<open>null\<close> (the property read of
  \<open>null\<close> throws), on the empty string, and on an object whose \<open>length\<close>
  property is the number 0; on any other value \<open>.length\<close> or \<open>.map\<close> throws and
  React unmounts the page. The buttons of a card carry the element's \<open>name\<close>,
  \<open>undefined\<close> when it has none.
\<close>

definition renders_list :: "json \<Rightarrow> bool" where
  "renders_list v =
     (case v of
        JArr xs \<Rightarrow> JNull \<notin> set xs
      | JStr s \<Rightarrow> s = []
      | JObj ps \<Rightarrow> (case map_of ps ''length'' of Some (JNum m e) \<Rightarrow> m = 0 | _ \<Rightarrow> False)
      | _ \<Rightarrow> False)"

definition card_names :: "json \<Rightarrow> string list" where
  "card_names v =
     (case v of
        JArr xs \<Rightarrow> map (\<lambda>x. case get_prop x ''name'' of Inr n \<Rightarrow> template_opt n | Inl _ \<Rightarrow> []) xs
      | _ \<Rightarrow> [])"

section \<open>Events\<close>

datatype svc_event =
    ClickDownload string
  | ClickDelete string bool
  | SvcSettleAll nat "exn + (response \<times> response)"
  | SvcSettle nat fetch_outcome

text \<open>
  While \<open>loading\<close> only the spinner is shown (line 84); otherwise a button exists for
  each rendered card. A load settles with both responses, an action with one.
\<close>

fun svc_step :: "svc_state \<Rightarrow> svc_event \<Rightarrow> (svc_state \<times> callback list) option" where
  "svc_step st (ClickDownload n) =
     (if \<not> svc_loading st \<and> renders_list (availableServices st) \<and> renders_list (downloadedServices st)
         \<and> n \<in> set (card_names (availableServices st))
      then Some (handleDownload st n, []) else None)"
| "svc_step st (ClickDelete n c) =
     (if \<not> svc_loading st \<and> renders_list (availableServices st) \<and> renders_list (downloadedServices st)
         \<and> n \<in> set (card_names (downloadedServices st))
      then Some (handleDelete st n c, []) else None)"
| "svc_step st (SvcSettleAll i r) =
     (if i < length (svc_pending st) \<and> snd (svc_pending st ! i) = LoadServices
      then Some (loadServices_done (st\<lparr>svc_pending := remove_nth i (svc_pending st)\<rparr>) r) else None)"
| "svc_step st (SvcSettle i r) =
     (if i < length (svc_pending st) then
        (let st' = st\<lparr>svc_pending := remove_nth i (svc_pending st)\<rparr> in
         case snd (svc_pending st ! i) of
           LoadServices \<Rightarrow> None
         | Download n \<Rightarrow> Some (handleDownload_done st' n r)
         | Delete n \<Rightarrow> Some (handleDelete_done st' n r))
      else None)"

fun svc_run :: "svc_state \<Rightarrow> svc_event list \<Rightarrow> (svc_state \<times> callback list) option" where
  "svc_run st [] = Some (st, [])"
| "svc_run st (ev # evs) =
     (case svc_step st ev of
        None \<Rightarrow> None
      | Some (st1, cbs1) \<Rightarrow>
          (case svc_run st1 evs of None \<Rightarrow> None | Some (st2, cbs2) \<Rightarrow> Some (st2, cbs1 @ cbs2)))"

inductive svc_reach :: "svc_state \<Rightarrow> bool" where
  svc_reach_init: "svc_reach svc_init"
| svc_reach_step: "svc_reach st \<Longrightarrow> svc_step st ev = Some (st', cbs) \<Longrightarrow> svc_reach st'"

text \<open>\<open>loading\<close> is set only while some load is in flight.\<close>

definition svc_inv :: "svc_state \<Rightarrow> bool" where
  "svc_inv st \<longleftrightarrow> (svc_loading st \<longrightarrow> (\<exists>p \<in> set (svc_pending st). snd p = LoadServices))"

section \<open>Lemmas\<close>

lemma svc_run_reach: "svc_reach st \<Longrightarrow> svc_run st evs = Some (st', cbs) \<Longrightarrow> svc_reach st'"
proof (induction evs arbitrary: st cbs)
  case Nil
  then show ?case by simp
next
  case (Cons ev evs)
  then obtain st1 cbs1 cbs2 where s1: "svc_step st ev = Some (st1, cbs1)"
    and r: "svc_run st1 evs = Some (st', cbs2)"
    by (auto split: option.splits prod.splits)
  have "svc_reach st1" using Cons.prems(1) s1 by (rule svc_reach_step)
  then show ?case using Cons.IH r by blast
qed

lemma loadServices_inv: "svc_inv (loadServices st)"
  by (simp add: svc_inv_def loadServices_def)

lemma loadServices_done_inv: "svc_inv (fst (loadServices_done st r))"
  by (simp add: svc_inv_def loadServices_done_def split: sum.splits prod.splits)

lemma action_done_inv:
  "svc_inv st \<Longrightarrow> svc_inv (fst (action_done st a b c n r))"
  by (simp add: action_done_def loadServices_inv split: sum.splits)

lemma svc_inv_remove:
  assumes "svc_inv st" "i < length (svc_pending st)" "snd (svc_pending st ! i) \<noteq> LoadServices"
  shows "svc_inv (st\<lparr>svc_pending := remove_nth i (svc_pending st)\<rparr>)"
proof -
  have "count_of (\<lambda>p. snd p = LoadServices) (remove_nth i (svc_pending st)) =
        count_of (\<lambda>p. snd p = LoadServices) (svc_pending st)"
    using count_of_remove_nth[OF assms(2), of "\<lambda>p. snd p = LoadServices"] assms(3) by simp
  then show ?thesis using assms(1) by (simp add: svc_inv_def count_of_pos_iff[symmetric])
qed

lemma svc_inv_step: "svc_inv st \<Longrightarrow> svc_step st ev = Some (st', cbs) \<Longrightarrow> svc_inv st'"
proof (cases ev)
  case (ClickDownload n)
  assume "svc_inv st" "svc_step st ev = Some (st', cbs)"
  then show ?thesis using ClickDownload by (auto simp: svc_inv_def handleDownload_def split: if_splits)
next
  case (ClickDelete n c)
  assume "svc_inv st" "svc_step st ev = Some (st', cbs)"
  then show ?thesis using ClickDelete by (auto simp: svc_inv_def handleDelete_def split: if_splits)
next
  case (SvcSettleAll i r)
  assume "svc_inv st" "svc_step st ev = Some (st', cbs)"
  then show ?thesis using SvcSettleAll loadServices_done_inv by (auto split: if_splits) (metis fst_conv)
next
  case (SvcSettle i r)
  assume inv: "svc_inv st" and s: "svc_step st ev = Some (st', cbs)"
  then have i: "i < length (svc_pending st)" using SvcSettle by (simp split: if_splits)
  show ?thesis
  proof (cases "snd (svc_pending st ! i)")
    case LoadServices
    then show ?thesis using s SvcSettle i by simp
  next
    case (Download n)
    then have "st' = fst (handleDownload_done (st\<lparr>svc_pending := remove_nth i (svc_pending st)\<rparr>) n r)"
      using s SvcSettle i by auto
    then show ?thesis using svc_inv_remove[OF inv i] Download action_done_inv
      by (simp add: handleDownload_done_def)
  next
    case (Delete n)
    then have "st' = fst (handleDelete_done (st\<lparr>svc_pending := remove_nth i (svc_pending st)\<rparr>) n r)"
      using s SvcSettle i by auto
    then show ?thesis using svc_inv_remove[OF inv i] Delete action_done_inv
      by (simp add: handleDelete_done_def)
  qed
qed

lemma svc_reach_inv: "svc_reach st \<Longrightarrow> svc_inv st"
  by (induction rule: svc_reach.induct) (auto intro: svc_inv_step simp: svc_init_def loadServices_inv)

section \<open>Properties\<close>

text \<open>
  C11: in every reachable state the services page shows its spinner only while a load
  of the two lists is in flight: each settled load clears \<open>loading\<close> in
  \<open>finally\<close>.
\<close>

theorem services_loading_inflight:
  assumes "svc_reach st" "svc_loading st"
  shows "\<exists>p \<in> set (svc_pending st). snd p = LoadServices"
  using svc_reach_inv[OF assms(1)] assms(2) by (simp add: svc_inv_def)

theorem services_loading_inflight_witness:
  "svc_reach svc_init \<and> svc_loading svc_init \<and> (\<exists>p \<in> set (svc_pending svc_init). snd p = LoadServices)"
proof -
  have l: "svc_loading svc_init" by (simp add: svc_init_def loadServices_def)
  show ?thesis using services_loading_inflight[OF svc_reach_init l] svc_reach_init l by blast
qed

text \<open>
  C21: loads are not ordered. Whenever two loads are in flight, either one may settle
  first, and when one does, whatever the status of its two responses, their bodies
  replace both lists, the spinner is cleared, and the other load is still in flight: an
  older load settling last overwrites newer lists, and an error body such as
  \<open>{"detail": ...}\<close> is stored as a list.
\<close>

theorem services_stale_reload:
  assumes "i < length (svc_pending st)" "snd (svc_pending st ! i) = LoadServices"
    "j < length (svc_pending st)" "j \<noteq> i" "snd (svc_pending st ! j) = LoadServices"
  shows "\<exists>st'. svc_step st (SvcSettleAll i (Inr (Response oka (Inr a), Response okd (Inr d)))) = Some (st', [])
    \<and> availableServices st' = a \<and> downloadedServices st' = d \<and> \<not> svc_loading st'
    \<and> (\<exists>p \<in> set (svc_pending st'). snd p = LoadServices)"
proof -
  have "svc_pending st ! j \<in> set (remove_nth i (svc_pending st))"
    using nth_in_remove_nth[OF assms(3,4)] .
  then have "\<exists>p \<in> set (remove_nth i (svc_pending st)). snd p = LoadServices"
    using assms(5) by blast
  then show ?thesis using assms(1,2) by (simp add: loadServices_done_def)
qed

theorem services_stale_reload_witness:
  "\<exists>st'. svc_step \<lparr>availableServices = JArr [], downloadedServices = JArr [], svc_loading = True,
        svc_pending = [([get_request ''/services/available'', get_request ''/services/downloaded''], LoadServices),
                       ([get_request ''/services/available'', get_request ''/services/downloaded''], LoadServices)]\<rparr>
      (SvcSettleAll 0 (Inr (Response False (Inr (JObj [(''detail'', JStr ''down'')])), Response True (Inr (JArr [])))))
      = Some (st', [])
    \<and> availableServices st' = JObj [(''detail'', JStr ''down'')] \<and> downloadedServices st' = JArr []
    \<and> \<not> svc_loading st' \<and> (\<exists>p \<in> set (svc_pending st'). snd p = LoadServices)"
  by (rule services_stale_reload[where j = 1]) simp_all

end
