(* ===== verification/ClientApp.thy ===== *)
theory ClientApp
  imports ConfigTab ServicesTab
begin

text \<open>
  The client's shell \<open>App\<close> of \<open>client-ui/frontend/src/App.tsx\<close>: the active tab,
  the message with its 5-second timer, the rebuild button, and the two tabs it always
  mounts, \<open>ServicesTab\<close> and \<open>ConfigTab\<close>, whose \<open>showMessage\<close> calls land in
  the shell's state. Time is explicit: \<open>now\<close> in milliseconds and the due times of
  the pending \<open>setTimeout\<close> callbacks.
\<close>

section \<open>State\<close>

datatype tab = ServicesTabT | ConfigTabT

record app_state =
  activeTab :: tab
  app_message :: "message option"
  rebuilding :: bool
  now :: nat
  timers :: "nat list"
  rebuild_pending :: "http_request list"
  services :: svc_state
  cfgtab :: cfg_state

text \<open>Lines 15--17 and the mount of both tabs (lines 89 and 93).\<close>

definition app_init :: app_state where
  "app_init = \<lparr>activeTab = ServicesTabT, app_message = None, rebuilding = False, now = 0, timers = [],
               rebuild_pending = [], services = svc_init, cfgtab = cfg_init\<rparr>"

section \<open>Handlers\<close>

text \<open>Lines 19--22: show the message and clear it, whatever it is then, 5000 ms later.\<close>

definition showMessage :: "app_state \<Rightarrow> msg_text \<Rightarrow> msg_type \<Rightarrow> app_state" where
  "showMessage st txt ty =
     st\<lparr>app_message := Some (Message txt ty), timers := timers st @ [now st + 5000]\<rparr>"

text \<open>The callbacks of the tabs, in the order they were made.\<close>

fun apply_callbacks :: "app_state \<Rightarrow> callback list \<Rightarrow> app_state" where
  "apply_callbacks st [] = st"
| "apply_callbacks st (ShowMessage (Message txt ty) # cbs) = apply_callbacks (showMessage st txt ty) cbs"
| "apply_callbacks st (_ # cbs) = apply_callbacks st cbs"

text \<open>Lines 24--31: the confirmation, the flag, the first message and the request.\<close>

definition handleRebuild :: "app_state \<Rightarrow> bool \<Rightarrow> app_state" where
  "handleRebuild st confirmed =
     (if \<not> confirmed then st
      else (showMessage (st\<lparr>rebuilding := True\<rparr>) (Txt ''Rebuilding system...'') Success)
             \<lparr>rebuild_pending := rebuild_pending st @ [post_request ''/rebuild'']\<rparr>)"

text \<open>
  Lines 32--44: \<open>response.json()\<close>, \<open>result.status === 'success'\<close>, the message
  with \<open>result.stderr\<close>; an exception (a rejection, a body that is not JSON, a
  \<open>null\<close> body) becomes a message; \<open>finally\<close> clears the flag.
\<close>

definition handleRebuild_done :: "app_state \<Rightarrow> fetch_outcome \<Rightarrow> app_state" where
  "handleRebuild_done st r =
     (let outcome =
        sbind r (\<lambda>resp. sbind (resp_json resp) (\<lambda>result. sbind (get_prop result ''status'') (\<lambda>status.
          if status = Some (JStr ''success'') then Inr None
          else sbind (get_prop result ''stderr'') (\<lambda>err. Inr (Some err)))));
          st1 = (case outcome of
                   Inr None \<Rightarrow> showMessage st (Txt ''System rebuilt successfully'') Success
                 | Inr (Some err) \<Rightarrow> showMessage st (Txt (''Rebuild failed: '' @ template_opt err)) Error
                 | Inl e \<Rightarrow> showMessage st (ErrMessage ''Failed to rebuild: '' e) Error)
      in st1\<lparr>rebuilding := False\<rparr>)"

text \<open>\<open>d\<close> milliseconds pass: every timer now due runs \<open>setMessage(null)\<close>.\<close>

definition elapse :: "app_state \<Rightarrow> nat \<Rightarrow> app_state" where
  "elapse st d =
     (let t = now st + d
      in st\<lparr>now := t, timers := filter (\<lambda>x. t < x) (timers st),
            app_message := (if \<exists>x \<in> set (timers st). x \<le> t then None else app_message st)\<rparr>)"

section \<open>Events\<close>

text \<open>
  The user acts only on the visible tab (the other section is hidden), and on the
  rebuild button while it is enabled (line 53); requests settle and time passes
  whatever the tab.
\<close>

fun svc_user_event :: "svc_event \<Rightarrow> bool" where
  "svc_user_event (ClickDownload n) = True"
| "svc_user_event (ClickDelete n c) = True"
| "svc_user_event _ = False"

fun cfg_user_event :: "cfg_event \<Rightarrow> bool" where
  "cfg_user_event (EditConfig s) = True"
| "cfg_user_event ClickSave = True"
| "cfg_user_event _ = False"

datatype app_event =
    ClickTab tab
  | ClickRebuild bool
  | RebuildSettle nat fetch_outcome
  | Elapse nat
  | InServices svc_event
  | InConfig cfg_event

fun app_step :: "app_state \<Rightarrow> app_event \<Rightarrow> app_state option" where
  "app_step st (ClickTab t) = Some (st\<lparr>activeTab := t\<rparr>)"
| "app_step st (ClickRebuild c) = (if rebuilding st then None else Some (handleRebuild st c))"
| "app_step st (RebuildSettle i r) =
     (if i < length (rebuild_pending st)
      then Some (handleRebuild_done (st\<lparr>rebuild_pending := remove_nth i (rebuild_pending st)\<rparr>) r)
      else None)"
| "app_step st (Elapse d) = Some (elapse st d)"
| "app_step st (InServices ev) =
     (if svc_user_event ev \<and> activeTab st \<noteq> ServicesTabT then None
      else case svc_step (services st) ev of
             None \<Rightarrow> None
           | Some (s', cbs) \<Rightarrow> Some (apply_callbacks (st\<lparr>services := s'\<rparr>) cbs))"
| "app_step st (InConfig ev) =
     (if cfg_user_event ev \<and> activeTab st \<noteq> ConfigTabT then None
      else case cfg_step (cfgtab st) ev of
             None \<Rightarrow> None
           | Some (c', cbs) \<Rightarrow> Some (apply_callbacks (st\<lparr>cfgtab := c'\<rparr>) cbs))"

fun app_run :: "app_state \<Rightarrow> app_event list \<Rightarrow> app_state option" where
  "app_run st [] = Some st"
| "app_run st (ev # evs) = (case app_step st ev of None \<Rightarrow> None | Some st' \<Rightarrow> app_run st' evs)"

inductive app_reach :: "app_state \<Rightarrow> bool" where
  app_reach_init: "app_reach app_init"
| app_reach_step: "app_reach st \<Longrightarrow> app_step st ev = Some st' \<Longrightarrow> app_reach st'"

text \<open>
  Every shown message has a timer due within 5000 ms, and the rebuild flag is set
  exactly while the one rebuild request is in flight.
\<close>

definition app_inv :: "app_state \<Rightarrow> bool" where
  "app_inv st \<longleftrightarrow>
     (app_message st \<noteq> None \<longrightarrow> timers st \<noteq> []) \<and>
     (\<forall>x \<in> set (timers st). now st < x \<and> x \<le> now st + 5000) \<and>
     length (rebuild_pending st) = (if rebuilding st then 1 else 0)"

text \<open>The shell's message and timers, for the parts of the invariant they carry.\<close>

definition msg_inv :: "app_state \<Rightarrow> bool" where
  "msg_inv st \<longleftrightarrow>
     (app_message st \<noteq> None \<longrightarrow> timers st \<noteq> []) \<and> (\<forall>x \<in> set (timers st). now st < x \<and> x \<le> now st + 5000)"

section \<open>Lemmas\<close>

lemma app_run_reach: "app_reach st \<Longrightarrow> app_run st evs = Some st' \<Longrightarrow> app_reach st'"
proof (induction evs arbitrary: st)
  case Nil
  then show ?case by simp
next
  case (Cons ev evs)
  then obtain st1 where s1: "app_step st ev = Some st1" and r: "app_run st1 evs = Some st'"
    by (auto split: option.splits)
  have "app_reach st1" using Cons.prems(1) s1 by (rule app_reach_step)
  then show ?case using Cons.IH r by blast
qed

lemma msg_inv_showMessage: "msg_inv st \<Longrightarrow> msg_inv (showMessage st txt ty)"
  by (auto simp: msg_inv_def showMessage_def)

lemma apply_callbacks_keeps:
  "now (apply_callbacks st cbs) = now st \<and> rebuilding (apply_callbacks st cbs) = rebuilding st \<and>
   rebuild_pending (apply_callbacks st cbs) = rebuild_pending st \<and>
   services (apply_callbacks st cbs) = services st \<and> cfgtab (apply_callbacks st cbs) = cfgtab st \<and>
   activeTab (apply_callbacks st cbs) = activeTab st"
  by (induction st cbs rule: apply_callbacks.induct) (simp_all add: showMessage_def)

lemma msg_inv_apply_callbacks: "msg_inv st \<Longrightarrow> msg_inv (apply_callbacks st cbs)"
  by (induction st cbs rule: apply_callbacks.induct) (simp_all add: msg_inv_showMessage)

lemma app_inv_msg: "app_inv st \<longleftrightarrow> msg_inv st \<and> length (rebuild_pending st) = (if rebuilding st then 1 else 0)"
  by (auto simp: app_inv_def msg_inv_def)

lemma msg_inv_elapse: "msg_inv st \<Longrightarrow> msg_inv (elapse st d)"
proof (cases "\<exists>x \<in> set (timers st). x \<le> now st + d")
  case True
  assume "msg_inv st"
  then show ?thesis using True by (auto simp: msg_inv_def elapse_def Let_def)
next
  case False
  assume m: "msg_inv st"
  have "filter (\<lambda>x. now st + d < x) (timers st) = timers st" using False by (auto simp: filter_id_conv not_le)
  then show ?thesis using m False by (auto simp: msg_inv_def elapse_def Let_def)
qed

lemma elapse_keeps:
  "rebuilding (elapse st d) = rebuilding st \<and> rebuild_pending (elapse st d) = rebuild_pending st"
  by (simp add: elapse_def Let_def)

lemma msg_inv_rebuild_done: "msg_inv st \<Longrightarrow> msg_inv (handleRebuild_done st r)"
proof -
  assume m: "msg_inv st"
  have "msg_inv (st1\<lparr>rebuilding := False\<rparr>)" if "msg_inv st1" for st1 :: app_state
    using that by (simp add: msg_inv_def)
  then show ?thesis using m msg_inv_showMessage
    by (simp add: handleRebuild_done_def Let_def split: sum.splits option.splits)
qed

lemma app_inv_step: "app_inv st \<Longrightarrow> app_step st ev = Some st' \<Longrightarrow> app_inv st'"
proof (cases ev)
  case (ClickTab t)
  assume "app_inv st" "app_step st ev = Some st'"
  then show ?thesis using ClickTab by (auto simp: app_inv_def)
next
  case (ClickRebuild c)
  assume inv: "app_inv st" and s: "app_step st ev = Some st'"
  then have "\<not> rebuilding st" "st' = handleRebuild st c" using ClickRebuild by (simp_all split: if_splits)
  then show ?thesis using inv msg_inv_showMessage[of "st\<lparr>rebuilding := True\<rparr>"]
    by (auto simp: app_inv_msg handleRebuild_def msg_inv_def showMessage_def)
next
  case (RebuildSettle i r)
  assume inv: "app_inv st" and s: "app_step st ev = Some st'"
  then have i: "i < length (rebuild_pending st)"
    and st': "st' = handleRebuild_done (st\<lparr>rebuild_pending := remove_nth i (rebuild_pending st)\<rparr>) r"
    using RebuildSettle by (simp_all split: if_splits)
  have "msg_inv (st\<lparr>rebuild_pending := remove_nth i (rebuild_pending st)\<rparr>)"
    using inv by (simp add: app_inv_msg msg_inv_def)
  then have "msg_inv st'" using st' msg_inv_rebuild_done by blast
  moreover have "rebuild_pending st' = remove_nth i (rebuild_pending st) \<and> \<not> rebuilding st'"
    using st' by (simp add: handleRebuild_done_def Let_def showMessage_def split: sum.splits option.splits)
  ultimately show ?thesis using inv i by (auto simp: app_inv_msg split: if_splits)
next
  case (Elapse d)
  assume "app_inv st" "app_step st ev = Some st'"
  then show ?thesis using Elapse msg_inv_elapse elapse_keeps by (auto simp: app_inv_msg)
next
  case (InServices e)
  assume inv: "app_inv st" and s: "app_step st ev = Some st'"
  then obtain s' cbs where st': "st' = apply_callbacks (st\<lparr>services := s'\<rparr>) cbs"
    using InServices by (auto split: if_splits option.splits)
  have "msg_inv (st\<lparr>services := s'\<rparr>)" using inv by (simp add: app_inv_msg msg_inv_def)
  then show ?thesis using inv st' msg_inv_apply_callbacks apply_callbacks_keeps by (simp add: app_inv_msg)
next
  case (InConfig e)
  assume inv: "app_inv st" and s: "app_step st ev = Some st'"
  then obtain c' cbs where st': "st' = apply_callbacks (st\<lparr>cfgtab := c'\<rparr>) cbs"
    using InConfig by (auto split: if_splits option.splits)
  have "msg_inv (st\<lparr>cfgtab := c'\<rparr>)" using inv by (simp add: app_inv_msg msg_inv_def)
  then show ?thesis using inv st' msg_inv_apply_callbacks apply_callbacks_keeps by (simp add: app_inv_msg)
qed

lemma app_reach_inv: "app_reach st \<Longrightarrow> app_inv st"
proof (induction rule: app_reach.induct)
  case app_reach_init
  then show ?case by (simp add: app_inv_def app_init_def)
next
  case (app_reach_step st ev st')
  then show ?case by (blast intro: app_inv_step)
qed

text \<open>Each tab's state in the shell changes only by steps of that tab.\<close>

lemma app_step_children:
  "app_step st ev = Some st' \<Longrightarrow>
   (services st' = services st \<or> (\<exists>e cbs. svc_step (services st) e = Some (services st', cbs))) \<and>
   (cfgtab st' = cfgtab st \<or> (\<exists>e cbs. cfg_step (cfgtab st) e = Some (cfgtab st', cbs)))"
proof (cases ev)
  case (RebuildSettle i r)
  assume "app_step st ev = Some st'"
  then show ?thesis using RebuildSettle
    by (auto simp: handleRebuild_done_def Let_def showMessage_def split: if_splits sum.splits option.splits)
next
  case (ClickRebuild c)
  assume "app_step st ev = Some st'"
  then show ?thesis using ClickRebuild by (auto simp: handleRebuild_def showMessage_def split: if_splits)
next
  case (Elapse d)
  assume "app_step st ev = Some st'"
  then show ?thesis using Elapse by (auto simp: elapse_def Let_def)
next
  case (InServices e)
  assume "app_step st ev = Some st'"
  then show ?thesis using InServices apply_callbacks_keeps by (auto split: if_splits option.splits)
next
  case (InConfig e)
  assume "app_step st ev = Some st'"
  then show ?thesis using InConfig apply_callbacks_keeps by (auto split: if_splits option.splits)
qed auto

lemma app_reach_children: "app_reach st \<Longrightarrow> svc_reach (services st) \<and> cfg_reach (cfgtab st)"
proof (induction rule: app_reach.induct)
  case app_reach_init
  then show ?case by (simp add: app_init_def svc_reach_init cfg_reach_init)
next
  case (app_reach_step st ev st')
  then show ?case using app_step_children[OF app_reach_step(2)]
    by (metis svc_reach_step cfg_reach_step)
qed

lemma app_reach_rebuild: "app_reach (handleRebuild app_init True)"
proof -
  have "app_step app_init (ClickRebuild True) = Some (handleRebuild app_init True)"
    by (simp add: app_init_def)
  then show ?thesis by (rule app_reach_step[OF app_reach_init])
qed

section \<open>Properties\<close>

text \<open>
  C9: from every reachable state, 5000 ms without other events clear the message: every
  shown message has a timer due within 5000 ms of the present.
\<close>

theorem app_message_cleared:
  assumes "app_reach st"
  shows "app_message (elapse st 5000) = None"
proof -
  have m: "msg_inv st" using app_reach_inv[OF assms] by (simp add: app_inv_msg)
  show ?thesis
  proof (cases "app_message st")
    case None
    then show ?thesis by (simp add: elapse_def Let_def)
  next
    case (Some msg)
    then have "timers st \<noteq> []" using m by (simp add: msg_inv_def)
    then have h: "hd (timers st) \<in> set (timers st)" by simp
    then have "hd (timers st) \<le> now st + 5000" using m by (simp add: msg_inv_def)
    then have "\<exists>x \<in> set (timers st). x \<le> now st + 5000" using h by blast
    then show ?thesis by (simp add: elapse_def Let_def)
  qed
qed

theorem app_message_cleared_witness:
  "app_reach (handleRebuild app_init True) \<and> app_message (elapse (handleRebuild app_init True) 5000) = None"
  using app_message_cleared[OF app_reach_rebuild] app_reach_rebuild by simp

text \<open>
  C22: the timer of an earlier message clears a later one: a message shown while a timer
  \<open>x\<close> is pending is gone once time reaches \<open>x\<close>, which is less than
  5000 ms away whenever that timer was set earlier, since every timer calls
  \<open>setMessage(null)\<close> whatever message is shown then (lines 19--22).
\<close>

theorem app_stale_timer:
  assumes "x \<in> set (timers st)"
  shows "app_message (elapse (showMessage st txt ty) (x - now st)) = None"
proof -
  have "x \<le> now st + (x - now st)" by simp
  then have "\<exists>y \<in> set (timers (showMessage st txt ty)). y \<le> now (showMessage st txt ty) + (x - now st)"
    using assms by (auto simp: showMessage_def)
  then show ?thesis by (simp add: elapse_def Let_def)
qed

theorem app_stale_timer_witness:
  "(5000::nat) \<in> set (timers (elapse (handleRebuild app_init True) 4000)) \<and>
   app_message (elapse (showMessage (elapse (handleRebuild app_init True) 4000)
      (Txt ''System rebuilt successfully'') Success) (5000 - now (elapse (handleRebuild app_init True) 4000))) = None"
proof -
  have t: "(5000::nat) \<in> set (timers (elapse (handleRebuild app_init True) 4000))"
    by (simp add: handleRebuild_def showMessage_def app_init_def elapse_def)
  show ?thesis using app_stale_timer[OF t] t by simp
qed

text \<open>
  C10: at most one rebuild request is in flight, and the button shows "Rebuilding..."
  exactly while it is.
\<close>

theorem app_one_rebuild:
  assumes "app_reach st"
  shows "length (rebuild_pending st) \<le> 1 \<and> (rebuilding st \<longleftrightarrow> rebuild_pending st \<noteq> [])"
  using app_reach_inv[OF assms] by (auto simp: app_inv_def split: if_splits)

theorem app_one_rebuild_witness:
  "app_reach (handleRebuild app_init True) \<and>
   length (rebuild_pending (handleRebuild app_init True)) \<le> 1 \<and>
   (rebuilding (handleRebuild app_init True) \<longleftrightarrow> rebuild_pending (handleRebuild app_init True) \<noteq> [])"
  using app_one_rebuild[OF app_reach_rebuild] app_reach_rebuild by simp

text \<open>
  C12: every pending message timer is due after the present and at most 5000 ms from it,
  whatever the events so far: a message is never kept longer than 5 s.
\<close>

theorem app_timer_bounds:
  assumes "app_reach st" "x \<in> set (timers st)"
  shows "now st < x \<and> x \<le> now st + 5000"
  using app_reach_inv[OF assms(1)] assms(2) by (simp add: app_inv_def)

theorem app_timer_bounds_witness:
  "app_reach (handleRebuild app_init True) \<and> (5000::nat) \<in> set (timers (handleRebuild app_init True)) \<and>
   now (handleRebuild app_init True) < 5000 \<and> (5000::nat) \<le> now (handleRebuild app_init True) + 5000"
proof -
  have t: "(5000::nat) \<in> set (timers (handleRebuild app_init True))"
    by (simp add: handleRebuild_def showMessage_def app_init_def)
  show ?thesis using app_timer_bounds[OF app_reach_rebuild t] app_reach_rebuild t by simp
qed

end
