(* ===== verification/InstallForm.thy ===== *)
theory InstallForm
  imports WebRuntime
begin

text \<open>
  The component \<open>InstallForm\<close> of \<open>installer/frontend/src/components/InstallForm.tsx\<close>:
  the disk list it receives from the installer's \<open>App\<close> (the \<open>disks\<close> field of the
  status, a JSON value), the form's fields, the flags and the install request in flight.
  The selected disk is whatever \<open>disk.name\<close> held (\<open>None\<close>: \<open>undefined\<close>). The
  browser's constraint validation (\<open>required\<close>, the hostname \<open>pattern\<close>, the URL
  type of the git remote) decides whether submitting runs \<open>handleInstall\<close> at all; the
  URL check is the browser's and comes with the event.
\<close>

section \<open>State\<close>

record form_state =
  selectedDisk :: "json option"
  hostname :: string
  timezone :: string
  rootSshKey :: string
  gitRemote :: string
  installing :: bool
  installComplete :: bool
  form_pending :: "http_request list"

text \<open>Lines 16--22.\<close>

definition form_init :: form_state where
  "form_init = \<lparr>selectedDisk = Some (JStr []), hostname = ''homelab'', timezone = ''UTC'',
                rootSshKey = [], gitRemote = [], installing = False, installComplete = False,
                form_pending = []\<rparr>"

section \<open>The disk list\<close>

text \<open>
  Lines 98--109: one item per element of \<open>disks\<close>, reading \<open>disk.name\<close>,
  \<open>disk.size\<close> and \<open>disk.mounted\<close>; rendering throws unless \<open>disks\<close> is an
  array without \<open>null\<close> elements. Clicking an item selects its name unless the disk is
  mounted.
\<close>

definition disk_list_renders :: "json \<Rightarrow> bool" where
  "disk_list_renders v = (case v of JArr xs \<Rightarrow> JNull \<notin> set xs | _ \<Rightarrow> False)"

definition disk_mounted :: "json \<Rightarrow> bool" where
  "disk_mounted d = (case get_prop d ''mounted'' of Inr m \<Rightarrow> truthy_opt m | Inl _ \<Rightarrow> False)"

definition disk_name :: "json \<Rightarrow> json option" where
  "disk_name d = (case get_prop d ''name'' of Inr n \<Rightarrow> n | Inl _ \<Rightarrow> None)"

definition click_disk :: "form_state \<Rightarrow> json \<Rightarrow> form_state" where
  "click_disk st d = (if disk_mounted d then st else st\<lparr>selectedDisk := disk_name d\<rparr>)"

text \<open>
  Lines 75--110: the form, with its inputs and submit button, is on the page only
  while the installation is not complete and the disk list renders.
\<close>

definition form_shown :: "json \<Rightarrow> form_state \<Rightarrow> bool" where
  "form_shown disks st \<longleftrightarrow> \<not> installComplete st \<and> disk_list_renders disks"

section \<open>Submitting\<close>

text \<open>Line 121: \<open>pattern="[a-z0-9-]+"\<close>, matched against the whole value.\<close>

definition hostname_ok :: "string \<Rightarrow> bool" where
  "hostname_ok h \<longleftrightarrow> h \<noteq> [] \<and> (\<forall>c \<in> set h. c \<in> set ''abcdefghijklmnopqrstuvwxyz0123456789-'')"

text \<open>
  Lines 115--158: the browser submits only when the required fields are filled, the
  hostname matches its pattern and the git remote is a valid URL.
\<close>

definition form_valid :: "form_state \<Rightarrow> bool \<Rightarrow> bool" where
  "form_valid st url_valid \<longleftrightarrow>
     hostname_ok (hostname st) \<and> timezone st \<noteq> [] \<and> rootSshKey st \<noteq> [] \<and> gitRemote st \<noteq> [] \<and> url_valid"

text \<open>
  Lines 47--53: the body; \<open>JSON.stringify\<close> leaves out a property whose value is
  \<open>undefined\<close>.
\<close>

definition install_body :: "form_state \<Rightarrow> json" where
  "install_body st =
     JObj ((case selectedDisk st of Some d \<Rightarrow> [(''disk'', d)] | None \<Rightarrow> []) @
           [(''hostname'', JStr (hostname st)), (''timezone'', JStr (timezone st)),
            (''root_ssh_key'', JStr (rootSshKey st)), (''git_remote'', JStr (gitRemote st))])"

text \<open>Lines 24--54: the three checks in order, then the flag and the request.\<close>

definition handleInstall :: "form_state \<Rightarrow> form_state \<times> callback list" where
  "handleInstall st =
     (if \<not> truthy_opt (selectedDisk st) then (st, [ShowMessage (Message (Txt ''Please select a disk'') Warning)])
      else if rootSshKey st = [] then (st, [ShowMessage (Message (Txt ''Root SSH key is required'') Warning)])
      else if gitRemote st = [] then (st, [ShowMessage (Message (Txt ''Git remote URL is required'') Warning)])
      else (st\<lparr>installing := True,
               form_pending := form_pending st @ [post_json ''/api/install'' (install_body st)]\<rparr>, []))"

text \<open>
  Lines 56--58, 68--72: a failed status reads the error body and throws
  \<open>new Error(error.detail || 'Installation failed')\<close>; the message shows the error
  with \<open>`${error}`\<close>.
\<close>

definition detail_error :: "string \<Rightarrow> json \<Rightarrow> exn + unit" where
  "detail_error dflt errv =
     sbind (get_prop errv ''detail'') (\<lambda>d. Inl (error_obj (js_template (js_or d (JStr dflt)))))"

text \<open>
  Lines 56--72, when the request settles. On success \<open>installComplete\<close> is set before
  \<open>data.hostname\<close> is read, then the message and \<open>onSuccess()\<close>; \<open>finally\<close> clears
  \<open>installing\<close>.
\<close>

definition handleInstall_done :: "form_state \<Rightarrow> fetch_outcome \<Rightarrow> form_state \<times> callback list" where
  "handleInstall_done st r =
     (let fail = (\<lambda>st' e. (st'\<lparr>installing := False\<rparr>,
                           [ShowMessage (Message (ErrString ''Installation failed: '' e) Error)]))
      in case r of
           Inl e \<Rightarrow> fail st e
         | Inr resp \<Rightarrow>
             if \<not> resp_ok resp then
               (case sbind (resp_json resp) (detail_error ''Installation failed'') of
                  Inl e \<Rightarrow> fail st e | Inr u \<Rightarrow> (st\<lparr>installing := False\<rparr>, []))
             else
               (case resp_json resp of
                  Inl e \<Rightarrow> fail st e
                | Inr data \<Rightarrow>
                    (let st1 = st\<lparr>installComplete := True\<rparr> in
                     case sbind (get_prop data ''hostname'') (\<lambda>h. sbind (get_prop data ''disk'') (\<lambda>d. Inr (h, d))) of
                       Inl e \<Rightarrow> fail st1 e
                     | Inr (h, d) \<Rightarrow>
                         (st1\<lparr>installing := False\<rparr>,
                          [ShowMessage (Message (Txt (''Installation complete! Hostname: '' @ template_opt h @
                             '', Disk: '' @ template_opt d @ ''. You can now reboot the system.'')) Success),
                           OnSuccess]))))"

section \<open>Events\<close>

text \<open>
  The inputs and the button exist only while the form is shown (\<open>form_shown\<close>);
  the submit button is disabled while \<open>installing\<close> (line 167), which also blocks
  implicit submission. The disk list is the component's prop.
\<close>

datatype form_event =
    ClickDisk nat
  | SetHostname string
  | SetTimezone string
  | SetSshKey string
  | SetGitRemote string
  | Submit bool
  | FormSettle nat fetch_outcome

fun form_step :: "json \<Rightarrow> form_state \<Rightarrow> form_event \<Rightarrow> (form_state \<times> callback list) option" where
  "form_step disks st (ClickDisk i) =
     (case disks of
        JArr xs \<Rightarrow> if form_shown disks st \<and> i < length xs
                   then Some (click_disk st (xs ! i), []) else None
      | _ \<Rightarrow> None)"
| "form_step disks st (SetHostname s) =
     (if form_shown disks st then Some (st\<lparr>hostname := s\<rparr>, []) else None)"
| "form_step disks st (SetTimezone s) =
     (if form_shown disks st then Some (st\<lparr>timezone := s\<rparr>, []) else None)"
| "form_step disks st (SetSshKey s) =
     (if form_shown disks st then Some (st\<lparr>rootSshKey := s\<rparr>, []) else None)"
| "form_step disks st (SetGitRemote s) =
     (if form_shown disks st then Some (st\<lparr>gitRemote := s\<rparr>, []) else None)"
| "form_step disks st (Submit url_valid) =
     (if \<not> form_shown disks st \<or> installing st then None
      else if form_valid st url_valid then Some (handleInstall st) else Some (st, []))"
| "form_step disks st (FormSettle i r) =
     (if i < length (form_pending st)
      then Some (handleInstall_done (st\<lparr>form_pending := remove_nth i (form_pending st)\<rparr>) r)
      else None)"

inductive form_reach :: "json \<Rightarrow> form_state \<Rightarrow> bool" for disks where
  form_reach_init: "form_reach disks form_init"
| form_reach_step: "form_reach disks st \<Longrightarrow> form_step disks st ev = Some (st', cbs) \<Longrightarrow> form_reach disks st'"

fun form_run :: "json \<Rightarrow> form_state \<Rightarrow> form_event list \<Rightarrow> (form_state \<times> callback list) option" where
  "form_run disks st [] = Some (st, [])"
| "form_run disks st (ev # evs) =
     (case form_step disks st ev of
        None \<Rightarrow> None
      | Some (st1, cbs1) \<Rightarrow>
          (case form_run disks st1 evs of None \<Rightarrow> None | Some (st2, cbs2) \<Rightarrow> Some (st2, cbs1 @ cbs2)))"

text \<open>
  With a fixed disk list: the selection is the initial empty string or the name of an
  unmounted disk of the list; every request in flight posts the form's fields with such
  a disk and a non-empty key and remote; \<open>installing\<close> is set exactly while one is.
\<close>

definition picked_disk :: "json \<Rightarrow> json option \<Rightarrow> bool" where
  "picked_disk disks d \<longleftrightarrow>
     (case disks of JArr xs \<Rightarrow> \<exists>x \<in> set xs. \<not> disk_mounted x \<and> disk_name x = d | _ \<Rightarrow> False)"

definition form_inv :: "json \<Rightarrow> form_state \<Rightarrow> bool" where
  "form_inv disks st \<longleftrightarrow>
     (selectedDisk st = Some (JStr []) \<or> picked_disk disks (selectedDisk st)) \<and>
     (\<forall>req \<in> set (form_pending st). \<exists>d h tz k g.
        req = post_json ''/api/install''
                (JObj [(''disk'', d), (''hostname'', JStr h), (''timezone'', JStr tz),
                       (''root_ssh_key'', JStr k), (''git_remote'', JStr g)]) \<and>
        js_truthy d \<and> picked_disk disks (Some d) \<and> k \<noteq> [] \<and> g \<noteq> []) \<and>
     length (form_pending st) = (if installing st then 1 else 0)"

section \<open>Lemmas\<close>

lemma form_run_reach:
  "form_reach disks st \<Longrightarrow> form_run disks st evs = Some (st', cbs) \<Longrightarrow> form_reach disks st'"
proof (induction evs arbitrary: st cbs)
  case Nil
  then show ?case by simp
next
  case (Cons ev evs)
  then obtain st1 cbs1 cbs2 where s1: "form_step disks st ev = Some (st1, cbs1)"
    and r: "form_run disks st1 evs = Some (st', cbs2)"
    by (auto split: option.splits prod.splits)
  have "form_reach disks st1" using Cons.prems(1) s1 by (rule form_reach_step)
  then show ?case using Cons.IH r by blast
qed

lemma handleInstall_done_keeps:
  "selectedDisk (fst (handleInstall_done st r)) = selectedDisk st \<and>
   form_pending (fst (handleInstall_done st r)) = form_pending st \<and>
   \<not> installing (fst (handleInstall_done st r))"
  by (simp add: handleInstall_done_def Let_def split: sum.splits prod.splits)

lemma truthy_opt_Some: "truthy_opt d \<Longrightarrow> \<exists>x. d = Some x \<and> js_truthy x"
  by (cases d) (simp_all add: truthy_opt_def)

lemma form_inv_init: "form_inv disks form_init"
  by (simp add: form_inv_def form_init_def)

lemma form_inv_click:
  assumes "form_inv disks st" "disks = JArr xs" "i < length xs"
  shows "form_inv disks (click_disk st (xs ! i))"
proof -
  have "xs ! i \<in> set xs" using assms(3) by simp
  then show ?thesis using assms(1,2) by (auto simp: form_inv_def click_disk_def picked_disk_def)
qed

lemma form_inv_install:
  assumes "form_inv disks st" "\<not> installing st"
  shows "form_inv disks (fst (handleInstall st))"
proof (cases "truthy_opt (selectedDisk st) \<and> rootSshKey st \<noteq> [] \<and> gitRemote st \<noteq> []")
  case True
  then obtain d where d: "selectedDisk st = Some d" "js_truthy d" using truthy_opt_Some by blast
  then have "picked_disk disks (Some d)" using assms(1) by (auto simp: form_inv_def)
  then show ?thesis using assms True d
    by (auto simp: form_inv_def handleInstall_def install_body_def) blast
next
  case False
  then show ?thesis using assms(1) by (auto simp: handleInstall_def)
qed

lemma form_inv_settle:
  assumes "form_inv disks st" "i < length (form_pending st)"
  shows "form_inv disks (fst (handleInstall_done (st\<lparr>form_pending := remove_nth i (form_pending st)\<rparr>) r))"
proof -
  have "length (form_pending st) = 1" using assms by (auto simp: form_inv_def split: if_splits)
  then have "remove_nth i (form_pending st) = []" using assms(2) by (simp add: remove_nth_def)
  then show ?thesis using assms(1) handleInstall_done_keeps[of "st\<lparr>form_pending := remove_nth i (form_pending st)\<rparr>" r]
    by (simp add: form_inv_def)
qed

lemma form_inv_step: "form_inv disks st \<Longrightarrow> form_step disks st ev = Some (st', cbs) \<Longrightarrow> form_inv disks st'"
proof (cases ev)
  case (ClickDisk i)
  assume inv: "form_inv disks st" and s: "form_step disks st ev = Some (st', cbs)"
  then obtain xs where "disks = JArr xs" "i < length xs" "st' = click_disk st (xs ! i)"
    using ClickDisk by (auto split: json.splits if_splits)
  then show ?thesis using form_inv_click[OF inv] by blast
next
  case (Submit u)
  assume inv: "form_inv disks st" and s: "form_step disks st ev = Some (st', cbs)"
  then show ?thesis using Submit form_inv_install[OF inv] by (auto split: if_splits)
next
  case (FormSettle i r)
  assume inv: "form_inv disks st" and s: "form_step disks st ev = Some (st', cbs)"
  then show ?thesis using FormSettle form_inv_settle[OF inv] by (auto split: if_splits) (metis fst_conv)
qed (auto simp: form_inv_def split: if_splits)

lemma form_reach_inv: "form_reach disks st \<Longrightarrow> form_inv disks st"
  by (induction rule: form_reach.induct) (auto intro: form_inv_step form_inv_init)

section \<open>Properties\<close>

text \<open>
  C6: with the disk list fixed, every install request in flight posts the form's fields
  with a disk the user picked from the list while it was not mounted, and a non-empty SSH
  key and git remote; a mounted disk can never be installed to.
\<close>

theorem install_request_disk:
  assumes "form_reach disks st" "req \<in> set (form_pending st)"
  shows "\<exists>d h tz k g.
           req = post_json ''/api/install''
                   (JObj [(''disk'', d), (''hostname'', JStr h), (''timezone'', JStr tz),
                          (''root_ssh_key'', JStr k), (''git_remote'', JStr g)]) \<and>
           js_truthy d \<and> picked_disk disks (Some d) \<and> k \<noteq> [] \<and> g \<noteq> []"
  using form_reach_inv[OF assms(1)] assms(2) by (simp add: form_inv_def)

theorem install_request_disk_witness:
  "form_reach (JArr [JObj [(''name'', JStr ''sdb''), (''mounted'', JBool True)],
                     JObj [(''name'', JStr ''sda''), (''mounted'', JBool False)]])
     \<lparr>selectedDisk = Some (JStr ''sda''), hostname = ''homelab'', timezone = ''UTC'', rootSshKey = ''ssh-ed25519 AAAA'',
      gitRemote = ''https://example.org/lab.git'', installing = True, installComplete = False,
      form_pending = [post_json ''/api/install''
        (JObj [(''disk'', JStr ''sda''), (''hostname'', JStr ''homelab''), (''timezone'', JStr ''UTC''),
               (''root_ssh_key'', JStr ''ssh-ed25519 AAAA''), (''git_remote'', JStr ''https://example.org/lab.git'')])]\<rparr> \<and>
   (\<exists>d h tz k g.
           post_json ''/api/install''
        (JObj [(''disk'', JStr ''sda''), (''hostname'', JStr ''homelab''), (''timezone'', JStr ''UTC''),
               (''root_ssh_key'', JStr ''ssh-ed25519 AAAA''), (''git_remote'', JStr ''https://example.org/lab.git'')]) =
           post_json ''/api/install''
                   (JObj [(''disk'', d), (''hostname'', JStr h), (''timezone'', JStr tz),
                          (''root_ssh_key'', JStr k), (''git_remote'', JStr g)]) \<and>
           js_truthy d \<and> picked_disk (JArr [JObj [(''name'', JStr ''sdb''), (''mounted'', JBool True)],
                     JObj [(''name'', JStr ''sda''), (''mounted'', JBool False)]]) (Some d) \<and> k \<noteq> [] \<and> g \<noteq> [])"
proof -
  have r: "form_run (JArr [JObj [(''name'', JStr ''sdb''), (''mounted'', JBool True)],
                           JObj [(''name'', JStr ''sda''), (''mounted'', JBool False)]]) form_init
             [ClickDisk 0, ClickDisk 1, SetSshKey ''ssh-ed25519 AAAA'', SetGitRemote ''https://example.org/lab.git'', Submit True] =
           Some (\<lparr>selectedDisk = Some (JStr ''sda''), hostname = ''homelab'', timezone = ''UTC'', rootSshKey = ''ssh-ed25519 AAAA'',
      gitRemote = ''https://example.org/lab.git'', installing = True, installComplete = False,
      form_pending = [post_json ''/api/install''
        (JObj [(''disk'', JStr ''sda''), (''hostname'', JStr ''homelab''), (''timezone'', JStr ''UTC''),
               (''root_ssh_key'', JStr ''ssh-ed25519 AAAA''), (''git_remote'', JStr ''https://example.org/lab.git'')])]\<rparr>, [])"
    by code_simp
  have reach: "form_reach (JArr [JObj [(''name'', JStr ''sdb''), (''mounted'', JBool True)],
                     JObj [(''name'', JStr ''sda''), (''mounted'', JBool False)]])
     \<lparr>selectedDisk = Some (JStr ''sda''), hostname = ''homelab'', timezone = ''UTC'', rootSshKey = ''ssh-ed25519 AAAA'',
      gitRemote = ''https://example.org/lab.git'', installing = True, installComplete = False,
      form_pending = [post_json ''/api/install''
        (JObj [(''disk'', JStr ''sda''), (''hostname'', JStr ''homelab''), (''timezone'', JStr ''UTC''),
               (''root_ssh_key'', JStr ''ssh-ed25519 AAAA''), (''git_remote'', JStr ''https://example.org/lab.git'')])]\<rparr>"
    by (rule form_run_reach[OF form_reach_init r])
  have "\<exists>d h tz k g.
           post_json ''/api/install''
        (JObj [(''disk'', JStr ''sda''), (''hostname'', JStr ''homelab''), (''timezone'', JStr ''UTC''),
               (''root_ssh_key'', JStr ''ssh-ed25519 AAAA''), (''git_remote'', JStr ''https://example.org/lab.git'')]) =
           post_json ''/api/install''
                   (JObj [(''disk'', d), (''hostname'', JStr h), (''timezone'', JStr tz),
                          (''root_ssh_key'', JStr k), (''git_remote'', JStr g)]) \<and>
           js_truthy d \<and> picked_disk (JArr [JObj [(''name'', JStr ''sdb''), (''mounted'', JBool True)],
                     JObj [(''name'', JStr ''sda''), (''mounted'', JBool False)]]) (Some d) \<and> k \<noteq> [] \<and> g \<noteq> []"
    by (rule install_request_disk[OF reach]) simp
  then show ?thesis using reach by blast
qed

text \<open>
  C14: the handler's checks of the SSH key and the git remote are never reached: the
  browser submits only a form whose required fields are filled, so a submission either
  warns that no disk is selected or sends the request.
\<close>

theorem install_key_checks_unreached:
  assumes "form_step disks st (Submit u) = Some (st', cbs)"
  shows "ShowMessage (Message (Txt ''Root SSH key is required'') Warning) \<notin> set cbs \<and>
         ShowMessage (Message (Txt ''Git remote URL is required'') Warning) \<notin> set cbs"
  using assms by (auto simp: form_valid_def handleInstall_def split: if_splits)

theorem install_key_checks_unreached_witness:
  "form_step (JArr []) (form_init\<lparr>rootSshKey := ''k'', gitRemote := ''https://g''\<rparr>) (Submit True) =
     Some (form_init\<lparr>rootSshKey := ''k'', gitRemote := ''https://g''\<rparr>,
           [ShowMessage (Message (Txt ''Please select a disk'') Warning)]) \<and>
   ShowMessage (Message (Txt ''Root SSH key is required'') Warning) \<notin> set [ShowMessage (Message (Txt ''Please select a disk'') Warning)] \<and>
   ShowMessage (Message (Txt ''Git remote URL is required'') Warning) \<notin> set [ShowMessage (Message (Txt ''Please select a disk'') Warning)]"
proof -
  have s: "form_step (JArr []) (form_init\<lparr>rootSshKey := ''k'', gitRemote := ''https://g''\<rparr>) (Submit True) =
     Some (form_init\<lparr>rootSshKey := ''k'', gitRemote := ''https://g''\<rparr>,
           [ShowMessage (Message (Txt ''Please select a disk'') Warning)])"
    by code_simp
  show ?thesis using install_key_checks_unreached[OF s] s by simp
qed

text \<open>
  C23: a response with an ok status always ends the form: \<open>installComplete\<close> is set
  (line 62) before \<open>data.hostname\<close> is read (line 64), so a \<open>null\<close> body, whose
  property read throws, leaves the form showing "Installation Complete" with an error
  message, and \<open>onSuccess\<close> is called exactly when the body is not \<open>null\<close>.
\<close>

theorem install_null_success_body:
  "fst (handleInstall_done st (Inr (Response True (Inr data)))) = st\<lparr>installComplete := True, installing := False\<rparr> \<and>
   (OnSuccess \<in> set (snd (handleInstall_done st (Inr (Response True (Inr data))))) \<longleftrightarrow> data \<noteq> JNull)"
  by (cases data) (simp_all add: handleInstall_done_def Let_def)

end
