(* ===== verification/WifiSetup.thy ===== *)
theory WifiSetup
  imports WebRuntime
begin

text \<open>
  The component \<open>WifiSetup\<close> of \<open>installer/frontend/src/components/WifiSetup.tsx\<close>:
  the networks of the last scan (\<open>data.networks\<close> as the server sent it, \<open>None\<close>
  for \<open>undefined\<close>), the selected SSID, the password, the flags and the requests in
  flight. The scan runs on mount and on the Rescan button; the connect request on
  submitting the form.
\<close>

section \<open>State\<close>

datatype wifi_cont = ScanNetworks | Connect

record wifi_state =
  networks :: "json option"
  selectedNetwork :: "json option"
  password :: string
  connecting :: bool
  scanning :: bool
  wifi_pending :: "(http_request \<times> wifi_cont) list"

section \<open>Handlers\<close>

text \<open>Lines 21--24: \<open>setScanning(true)\<close> and the request.\<close>

definition scanNetworks :: "wifi_state \<Rightarrow> wifi_state" where
  "scanNetworks st =
     st\<lparr>scanning := True, wifi_pending := wifi_pending st @ [(get_request ''/api/wifi/scan'', ScanNetworks)]\<rparr>"

text \<open>Lines 15--19 and the effect on mount (lines 35--37).\<close>

definition wifi_init :: wifi_state where
  "wifi_init = scanNetworks \<lparr>networks = Some (JArr []), selectedNetwork = Some (JStr []), password = [],
                             connecting = False, scanning = False, wifi_pending = []\<rparr>"

text \<open>
  Lines 25--32, when the scan settles: a failed status throws, otherwise
  \<open>data.networks\<close> is stored as it is; \<open>finally\<close> clears \<open>scanning\<close>.
\<close>

definition scanNetworks_done :: "wifi_state \<Rightarrow> fetch_outcome \<Rightarrow> wifi_state \<times> callback list" where
  "scanNetworks_done st r =
     (case sbind r (\<lambda>resp. if \<not> resp_ok resp then Inl (error_obj ''Failed to scan networks'')
                          else sbind (resp_json resp) (\<lambda>data. get_prop data ''networks'')) of
        Inr ns \<Rightarrow> (st\<lparr>networks := ns, scanning := False\<rparr>, [])
      | Inl e \<Rightarrow> (st\<lparr>scanning := False\<rparr>,
                  [ShowMessage (Message (ErrString ''Failed to scan networks: '' e) Error)]))"

text \<open>Lines 39--55: the check of the selection, the flag and the request.\<close>

definition handleConnect :: "wifi_state \<Rightarrow> wifi_state \<times> callback list" where
  "handleConnect st =
     (if \<not> truthy_opt (selectedNetwork st)
      then (st, [ShowMessage (Message (Txt ''Please select a network'') Warning)])
      else (st\<lparr>connecting := True,
               wifi_pending := wifi_pending st @
                 [(post_json ''/api/wifi/connect''
                     (JObj ((case selectedNetwork st of Some s \<Rightarrow> [(''ssid'', s)] | None \<Rightarrow> []) @
                            [(''password'', JStr (password st))])), Connect)]\<rparr>, []))"

text \<open>
  Lines 57--67, when the request settles: a failed status reads the body and throws
  \<open>new Error(error.detail || 'Failed to connect')\<close>; success calls
  \<open>onConnected()\<close>; \<open>finally\<close> clears \<open>connecting\<close>.
\<close>

definition handleConnect_done :: "wifi_state \<Rightarrow> fetch_outcome \<Rightarrow> wifi_state \<times> callback list" where
  "handleConnect_done st r =
     (st\<lparr>connecting := False\<rparr>,
      case sbind r (\<lambda>resp. if resp_ok resp then Inr ()
                          else sbind (resp_json resp) (\<lambda>errv. sbind (get_prop errv ''detail'')
                                 (\<lambda>d. Inl (error_obj (js_template (js_or d (JStr ''Failed to connect''))))))) of
        Inr _ \<Rightarrow> [OnConnected]
      | Inl e \<Rightarrow> [ShowMessage (Message (ErrString ''Connection failed: '' e) Error)])"

section \<open>Rendering and events\<close>

text \<open>
  Lines 82--94: \<open>networks.map\<close> with a row per network reading \<open>network.ssid\<close>;
  rendering throws unless \<open>networks\<close> is an array without \<open>null\<close> elements. Clicking a
  row selects its SSID.
\<close>

definition networks_render :: "json option \<Rightarrow> bool" where
  "networks_render v = (case v of Some (JArr xs) \<Rightarrow> JNull \<notin> set xs | _ \<Rightarrow> False)"

definition ssid_of :: "json \<Rightarrow> json option" where
  "ssid_of n = (case get_prop n ''ssid'' of Inr s \<Rightarrow> s | Inl _ \<Rightarrow> None)"

datatype wifi_event =
    ClickNetwork nat
  | SetPassword string
  | SubmitConnect
  | ClickRescan
  | WifiSettle nat fetch_outcome

text \<open>
  The password field exists once a network is selected (line 98); the connect button is
  disabled while connecting or with no selection (line 110), which also blocks implicit
  submission; Rescan is disabled while scanning (line 117). Nothing can be clicked when
  the list cannot be rendered.
\<close>

fun wifi_step :: "wifi_state \<Rightarrow> wifi_event \<Rightarrow> (wifi_state \<times> callback list) option" where
  "wifi_step st (ClickNetwork i) =
     (case networks st of
        Some (JArr xs) \<Rightarrow> if networks_render (networks st) \<and> i < length xs
                          then Some (st\<lparr>selectedNetwork := ssid_of (xs ! i)\<rparr>, []) else None
      | _ \<Rightarrow> None)"
| "wifi_step st (SetPassword s) =
     (if networks_render (networks st) \<and> truthy_opt (selectedNetwork st)
      then Some (st\<lparr>password := s\<rparr>, []) else None)"
| "wifi_step st SubmitConnect =
     (if networks_render (networks st) \<and> \<not> connecting st \<and> truthy_opt (selectedNetwork st)
      then Some (handleConnect st) else None)"
| "wifi_step st ClickRescan =
     (if networks_render (networks st) \<and> \<not> scanning st then Some (scanNetworks st, []) else None)"
| "wifi_step st (WifiSettle i r) =
     (if i < length (wifi_pending st) then
        (let st' = st\<lparr>wifi_pending := remove_nth i (wifi_pending st)\<rparr> in
         Some (case snd (wifi_pending st ! i) of
                 ScanNetworks \<Rightarrow> scanNetworks_done st' r
               | Connect \<Rightarrow> handleConnect_done st' r))
      else None)"

fun wifi_run :: "wifi_state \<Rightarrow> wifi_event list \<Rightarrow> (wifi_state \<times> callback list) option" where
  "wifi_run st [] = Some (st, [])"
| "wifi_run st (ev # evs) =
     (case wifi_step st ev of
        None \<Rightarrow> None
      | Some (st1, cbs1) \<Rightarrow>
          (case wifi_run st1 evs of None \<Rightarrow> None | Some (st2, cbs2) \<Rightarrow> Some (st2, cbs1 @ cbs2)))"

inductive wifi_reach :: "wifi_state \<Rightarrow> bool" where
  wifi_reach_init: "wifi_reach wifi_init"
| wifi_reach_step: "wifi_reach st \<Longrightarrow> wifi_step st ev = Some (st', cbs) \<Longrightarrow> wifi_reach st'"

text \<open>Each flag is set exactly while its one request is in flight.\<close>

definition wifi_inv :: "wifi_state \<Rightarrow> bool" where
  "wifi_inv st \<longleftrightarrow>
     count_of (\<lambda>p. snd p = ScanNetworks) (wifi_pending st) = (if scanning st then 1 else 0) \<and>
     count_of (\<lambda>p. snd p = Connect) (wifi_pending st) = (if connecting st then 1 else 0)"

section \<open>Lemmas\<close>

lemma wifi_run_reach: "wifi_reach st \<Longrightarrow> wifi_run st evs = Some (st', cbs) \<Longrightarrow> wifi_reach st'"
proof (induction evs arbitrary: st cbs)
  case Nil
  then show ?case by simp
next
  case (Cons ev evs)
  then obtain st1 cbs1 cbs2 where s1: "wifi_step st ev = Some (st1, cbs1)"
    and r: "wifi_run st1 evs = Some (st', cbs2)"
    by (auto split: option.splits prod.splits)
  have "wifi_reach st1" using Cons.prems(1) s1 by (rule wifi_reach_step)
  then show ?case using Cons.IH r by blast
qed

lemma scanNetworks_done_state:
  "wifi_pending (fst (scanNetworks_done st r)) = wifi_pending st \<and>
   \<not> scanning (fst (scanNetworks_done st r)) \<and> connecting (fst (scanNetworks_done st r)) = connecting st"
  by (simp add: scanNetworks_done_def split: sum.splits)

lemma wifi_inv_init: "wifi_inv wifi_init"
  by (simp add: wifi_inv_def wifi_init_def scanNetworks_def)

lemma wifi_inv_step: "wifi_inv st \<Longrightarrow> wifi_step st ev = Some (st', cbs) \<Longrightarrow> wifi_inv st'"
proof (cases ev)
  case SubmitConnect
  assume "wifi_inv st" "wifi_step st ev = Some (st', cbs)"
  then show ?thesis using SubmitConnect
    by (auto simp: wifi_inv_def handleConnect_def truthy_opt_def split: if_splits option.splits)
next
  case ClickRescan
  assume "wifi_inv st" "wifi_step st ev = Some (st', cbs)"
  then show ?thesis using ClickRescan by (auto simp: wifi_inv_def scanNetworks_def split: if_splits)
next
  case (WifiSettle i r)
  assume inv: "wifi_inv st" and s: "wifi_step st ev = Some (st', cbs)"
  then have i: "i < length (wifi_pending st)" using WifiSettle by (simp split: if_splits)
  let ?ps = "remove_nth i (wifi_pending st)"
  have cS: "count_of (\<lambda>p. snd p = ScanNetworks) ?ps + (if snd (wifi_pending st ! i) = ScanNetworks then 1 else 0)
      = count_of (\<lambda>p. snd p = ScanNetworks) (wifi_pending st)"
    by (rule count_of_remove_nth[OF i])
  have cC: "count_of (\<lambda>p. snd p = Connect) ?ps + (if snd (wifi_pending st ! i) = Connect then 1 else 0)
      = count_of (\<lambda>p. snd p = Connect) (wifi_pending st)"
    by (rule count_of_remove_nth[OF i])
  show ?thesis
  proof (cases "snd (wifi_pending st ! i)")
    case ScanNetworks
    then have "st' = fst (scanNetworks_done (st\<lparr>wifi_pending := ?ps\<rparr>) r)" using s WifiSettle i by auto
    then show ?thesis using inv cS cC ScanNetworks scanNetworks_done_state[of "st\<lparr>wifi_pending := ?ps\<rparr>" r]
      by (simp add: wifi_inv_def split: if_splits)
  next
    case Connect
    then have "st' = fst (handleConnect_done (st\<lparr>wifi_pending := ?ps\<rparr>) r)" using s WifiSettle i by auto
    then show ?thesis using inv cS cC Connect
      by (simp add: wifi_inv_def handleConnect_done_def split: if_splits)
  qed
qed (auto simp: wifi_inv_def split: if_splits option.splits json.splits)

lemma wifi_reach_inv: "wifi_reach st \<Longrightarrow> wifi_inv st"
  by (induction rule: wifi_reach.induct) (auto intro: wifi_inv_init wifi_inv_step)

section \<open>Properties\<close>

text \<open>
  C8: in every reachable state at most one scan and at most one connect request are in
  flight, and "Scanning..." and "Connecting..." are shown exactly while they are: the
  disabled buttons keep a second request out and \<open>finally\<close> clears each flag.
\<close>

theorem wifi_one_request_each:
  assumes "wifi_reach st"
  shows "count_of (\<lambda>p. snd p = ScanNetworks) (wifi_pending st) \<le> 1 \<and>
         count_of (\<lambda>p. snd p = Connect) (wifi_pending st) \<le> 1 \<and>
         (scanning st \<longleftrightarrow> (\<exists>p \<in> set (wifi_pending st). snd p = ScanNetworks)) \<and>
         (connecting st \<longleftrightarrow> (\<exists>p \<in> set (wifi_pending st). snd p = Connect))"
  using wifi_reach_inv[OF assms]
  by (auto simp: wifi_inv_def count_of_pos_iff[symmetric] split: if_splits)

theorem wifi_one_request_each_witness:
  "wifi_reach wifi_init \<and>
   count_of (\<lambda>p. snd p = ScanNetworks) (wifi_pending wifi_init) \<le> 1 \<and>
   count_of (\<lambda>p. snd p = Connect) (wifi_pending wifi_init) \<le> 1 \<and>
   (scanning wifi_init \<longleftrightarrow> (\<exists>p \<in> set (wifi_pending wifi_init). snd p = ScanNetworks)) \<and>
   (connecting wifi_init \<longleftrightarrow> (\<exists>p \<in> set (wifi_pending wifi_init). snd p = Connect))"
  using wifi_one_request_each[OF wifi_reach_init] wifi_reach_init by blast

text \<open>
  C24: a successful scan whose body has no \<open>networks\<close> field (the server's error
  shape, for instance) stores \<open>undefined\<close> as the list of networks (line 27); the
  next render throws at \<open>networks.map\<close> (line 82), so no control is left on the
  page: no network, password, connect or rescan event is possible.
\<close>

theorem wifi_scan_without_networks:
  assumes "i < length (wifi_pending st)" "snd (wifi_pending st ! i) = ScanNetworks"
    "get_prop data ''networks'' = Inr None"
  shows "\<exists>st'. wifi_step st (WifiSettle i (Inr (Response True (Inr data)))) = Some (st', []) \<and>
           networks st' = None \<and> \<not> scanning st' \<and>
           wifi_step st' (ClickNetwork n) = None \<and> wifi_step st' (SetPassword pw) = None \<and>
           wifi_step st' SubmitConnect = None \<and> wifi_step st' ClickRescan = None"
  using assms by (simp add: scanNetworks_done_def networks_render_def)

theorem wifi_scan_without_networks_witness:
  "\<exists>st'. wifi_step wifi_init (WifiSettle 0 (Inr (Response True (Inr (JObj [(''error'', JStr ''nmcli failed'')]))))) = Some (st', []) \<and>
     networks st' = None \<and> \<not> scanning st' \<and>
     wifi_step st' (ClickNetwork 0) = None \<and> wifi_step st' (SetPassword ''pw'') = None \<and>
     wifi_step st' SubmitConnect = None \<and> wifi_step st' ClickRescan = None"
  by (rule wifi_scan_without_networks) (simp_all add: wifi_init_def scanNetworks_def)

end
