(* ===== verification/InstallerApp.thy ===== *)
theory InstallerApp
  imports InstallForm WifiSetup
begin

text \<open>
  The installer's \<open>App\<close> of \<open>installer/frontend/src/App.tsx\<close>: the status fetched
  from \<open>/api/status\<close> (a JSON value, \<open>null\<close> at first), the message with its timer,
  the \<open>loading\<close> flag, and the child it mounts: \<open>WifiSetup\<close> while the status says
  there is no internet, \<open>InstallForm\<close> with the status's disks otherwise. A child is
  mounted afresh when the view switches to it; the requests of an unmounted child still
  settle, and their callbacks still reach the App (React drops only their state updates).
\<close>

section \<open>State\<close>

datatype child = NoChild | WifiChild wifi_state | FormChild form_state

datatype orphan = OrphanWifi wifi_cont | OrphanForm

record inst_state =
  status :: json
  inst_message :: "message option"
  inst_loading :: bool
  inst_now :: nat
  inst_timers :: "nat list"
  status_pending :: "http_request list"
  child :: child
  orphans :: "orphan list"

section \<open>The view\<close>

datatype view = VLoading | VWifi | VForm | VNone

text \<open>\<open>status.internet\<close> and \<open>status.disks\<close> of a status that is not \<open>null\<close>.\<close>

definition status_internet :: "json \<Rightarrow> bool" where
  "status_internet s = (case get_prop s ''internet'' of Inr v \<Rightarrow> truthy_opt v | Inl _ \<Rightarrow> False)"

text \<open>\<open>undefined\<close> disks make \<open>disks.map\<close> throw as \<open>null\<close> does.\<close>

definition status_disks :: "json \<Rightarrow> json" where
  "status_disks s = (case get_prop s ''disks'' of Inr (Some d) \<Rightarrow> d | _ \<Rightarrow> JNull)"

text \<open>Lines 50--81.\<close>

definition view :: "inst_state \<Rightarrow> view" where
  "view st =
     (if inst_loading st then VLoading
      else if js_truthy (status st) \<and> \<not> status_internet (status st) then VWifi
      else if js_truthy (status st) then VForm
      else VNone)"

fun child_orphans :: "child \<Rightarrow> orphan list" where
  "child_orphans NoChild = []"
| "child_orphans (WifiChild w) = map (\<lambda>p. OrphanWifi (snd p)) (wifi_pending w)"
| "child_orphans (FormChild f) = map (\<lambda>_. OrphanForm) (form_pending f)"

text \<open>React's reconciliation of lines 74--81: keep the child while the view keeps it, else unmount it and mount the new one.\<close>

definition sync_child :: "inst_state \<Rightarrow> inst_state" where
  "sync_child st =
     (case (view st, child st) of
        (VWifi, WifiChild w) \<Rightarrow> st
      | (VForm, FormChild f) \<Rightarrow> st
      | (v, c) \<Rightarrow>
          st\<lparr>orphans := orphans st @ child_orphans c,
             child := (case v of VWifi \<Rightarrow> WifiChild wifi_init | VForm \<Rightarrow> FormChild form_init | _ \<Rightarrow> NoChild)\<rparr>)"

section \<open>Handlers\<close>

text \<open>Lines 28--31.\<close>

definition inst_showMessage :: "inst_state \<Rightarrow> msg_text \<Rightarrow> msg_type \<Rightarrow> inst_state" where
  "inst_showMessage st txt ty =
     st\<lparr>inst_message := Some (Message txt ty), inst_timers := inst_timers st @ [inst_now st + 5000]\<rparr>"

text \<open>Lines 33--35: the request; \<open>fetchStatus\<close> does not set \<open>loading\<close>.\<close>

definition fetchStatus :: "inst_state \<Rightarrow> inst_state" where
  "fetchStatus st = st\<lparr>status_pending := status_pending st @ [get_request ''/api/status'']\<rparr>"

text \<open>Lines 36--43, when the request settles.\<close>

definition fetchStatus_done :: "inst_state \<Rightarrow> fetch_outcome \<Rightarrow> inst_state" where
  "fetchStatus_done st r =
     (let st1 =
        (case sbind r (\<lambda>resp. if \<not> resp_ok resp then Inl (error_obj ''Failed to fetch status'') else resp_json resp) of
           Inr data \<Rightarrow> st\<lparr>status := data\<rparr>
         | Inl e \<Rightarrow> inst_showMessage st (ErrString ''Failed to fetch status: '' e) Error)
      in st1\<lparr>inst_loading := False\<rparr>)"

text \<open>
  The children's callbacks: \<open>showMessage\<close>; \<open>onConnected\<close> of lines 75--78
  (\<open>fetchStatus()\<close> then a message); \<open>onSuccess\<close> is \<open>fetchStatus\<close> (line 80).
\<close>

fun inst_callbacks :: "inst_state \<Rightarrow> callback list \<Rightarrow> inst_state" where
  "inst_callbacks st [] = st"
| "inst_callbacks st (ShowMessage (Message txt ty) # cbs) = inst_callbacks (inst_showMessage st txt ty) cbs"
| "inst_callbacks st (OnConnected # cbs) =
     inst_callbacks (inst_showMessage (fetchStatus st) (Txt ''WiFi connected successfully!'') Success) cbs"
| "inst_callbacks st (OnSuccess # cbs) = inst_callbacks (fetchStatus st) cbs"

definition inst_elapse :: "inst_state \<Rightarrow> nat \<Rightarrow> inst_state" where
  "inst_elapse st d =
     (let t = inst_now st + d
      in st\<lparr>inst_now := t, inst_timers := filter (\<lambda>x. t < x) (inst_timers st),
            inst_message := (if \<exists>x \<in> set (inst_timers st). x \<le> t then None else inst_message st)\<rparr>)"

text \<open>The callbacks an orphaned continuation makes (they do not depend on the lost state).\<close>

fun orphan_callbacks :: "orphan \<Rightarrow> fetch_outcome \<Rightarrow> callback list" where
  "orphan_callbacks (OrphanWifi ScanNetworks) r = snd (scanNetworks_done wifi_init r)"
| "orphan_callbacks (OrphanWifi Connect) r = snd (handleConnect_done wifi_init r)"
| "orphan_callbacks OrphanForm r = snd (handleInstall_done form_init r)"

text \<open>Lines 24--26 and 46--48: the initial state and the effect on mount.\<close>

definition inst_init :: inst_state where
  "inst_init = sync_child (fetchStatus \<lparr>status = JNull, inst_message = None, inst_loading = True,
     inst_now = 0, inst_timers = [], status_pending = [], child = NoChild, orphans = []\<rparr>)"

section \<open>Events\<close>

datatype inst_event =
    StatusSettle nat fetch_outcome
  | InstElapse nat
  | InWifi wifi_event
  | InForm form_event
  | OrphanSettle nat fetch_outcome

fun inst_step :: "inst_state \<Rightarrow> inst_event \<Rightarrow> inst_state option" where
  "inst_step st (StatusSettle i r) =
     (if i < length (status_pending st)
      then Some (sync_child (fetchStatus_done (st\<lparr>status_pending := remove_nth i (status_pending st)\<rparr>) r))
      else None)"
| "inst_step st (InstElapse d) = Some (inst_elapse st d)"
| "inst_step st (InWifi ev) =
     (case child st of
        WifiChild w \<Rightarrow>
          (case wifi_step w ev of
             None \<Rightarrow> None
           | Some (w', cbs) \<Rightarrow> Some (sync_child (inst_callbacks (st\<lparr>child := WifiChild w'\<rparr>) cbs)))
      | _ \<Rightarrow> None)"
| "inst_step st (InForm ev) =
     (case child st of
        FormChild f \<Rightarrow>
          (case form_step (status_disks (status st)) f ev of
             None \<Rightarrow> None
           | Some (f', cbs) \<Rightarrow> Some (sync_child (inst_callbacks (st\<lparr>child := FormChild f'\<rparr>) cbs)))
      | _ \<Rightarrow> None)"
| "inst_step st (OrphanSettle i r) =
     (if i < length (orphans st)
      then Some (sync_child (inst_callbacks (st\<lparr>orphans := remove_nth i (orphans st)\<rparr>)
                                            (orphan_callbacks (orphans st ! i) r)))
      else None)"

fun inst_run :: "inst_state \<Rightarrow> inst_event list \<Rightarrow> inst_state option" where
  "inst_run st [] = Some st"
| "inst_run st (ev # evs) = (case inst_step st ev of None \<Rightarrow> None | Some st' \<Rightarrow> inst_run st' evs)"

inductive inst_reach :: "inst_state \<Rightarrow> bool" where
  inst_reach_init: "inst_reach inst_init"
| inst_reach_step: "inst_reach st \<Longrightarrow> inst_step st ev = Some st' \<Longrightarrow> inst_reach st'"

text \<open>The mounted child is the one the view shows.\<close>

fun child_fits :: "view \<Rightarrow> child \<Rightarrow> bool" where
  "child_fits VWifi (WifiChild w) = True"
| "child_fits VForm (FormChild f) = True"
| "child_fits VLoading NoChild = True"
| "child_fits VNone NoChild = True"
| "child_fits v c = False"

text \<open>
  The states after a failed first status request: nothing in flight, no child, nothing
  to show.
\<close>

definition inst_stuck :: "inst_state \<Rightarrow> bool" where
  "inst_stuck st \<longleftrightarrow>
     \<not> inst_loading st \<and> \<not> js_truthy (status st) \<and> status_pending st = [] \<and> orphans st = [] \<and> child st = NoChild"

section \<open>Lemmas\<close>

lemma inst_run_reach: "inst_reach st \<Longrightarrow> inst_run st evs = Some st' \<Longrightarrow> inst_reach st'"
proof (induction evs arbitrary: st)
  case Nil
  then show ?case by simp
next
  case (Cons ev evs)
  then obtain st1 where s1: "inst_step st ev = Some st1" and r: "inst_run st1 evs = Some st'"
    by (auto split: option.splits)
  have "inst_reach st1" using Cons.prems(1) s1 by (rule inst_reach_step)
  then show ?case using Cons.IH r by blast
qed

lemma view_sync_child: "view (sync_child st) = view st"
  by (simp add: sync_child_def view_def split: prod.splits view.splits child.splits)

lemma child_fits_sync: "child_fits (view (sync_child st)) (child (sync_child st))"
  by (simp add: view_sync_child) (simp add: sync_child_def split: view.splits child.splits)

lemma inst_elapse_keeps: "view (inst_elapse st d) = view st \<and> child (inst_elapse st d) = child st"
  by (simp add: inst_elapse_def Let_def view_def)

lemma inst_step_child_fits: "inst_step st ev = Some st' \<Longrightarrow> child_fits (view st) (child st) \<Longrightarrow> child_fits (view st') (child st')"
proof (cases ev)
  case (InstElapse d)
  assume "inst_step st ev = Some st'" "child_fits (view st) (child st)"
  then show ?thesis using InstElapse inst_elapse_keeps by auto
qed (auto simp: child_fits_sync split: if_splits child.splits option.splits prod.splits)

lemma inst_reach_child_fits: "inst_reach st \<Longrightarrow> child_fits (view st) (child st)"
proof (induction rule: inst_reach.induct)
  case inst_reach_init
  show ?case unfolding inst_init_def by (rule child_fits_sync)
next
  case (inst_reach_step st ev st')
  then show ?case by (blast intro: inst_step_child_fits)
qed

lemma inst_stuck_view: "inst_stuck st \<Longrightarrow> view st = VNone"
  by (simp add: inst_stuck_def view_def)

lemma inst_stuck_step: "inst_stuck st \<Longrightarrow> inst_step st ev = Some st' \<Longrightarrow> inst_stuck st'"
  by (cases ev) (auto simp: inst_stuck_def inst_elapse_def Let_def)

lemma inst_stuck_run: "inst_stuck st \<Longrightarrow> inst_run st evs = Some st' \<Longrightarrow> inst_stuck st'"
proof (induction evs arbitrary: st)
  case Nil
  then show ?case by simp
next
  case (Cons ev evs)
  then obtain st1 where s1: "inst_step st ev = Some st1" and r: "inst_run st1 evs = Some st'"
    by (auto split: option.splits)
  then show ?case using Cons inst_stuck_step by blast
qed

lemma inst_init_failed: "inst_step inst_init (StatusSettle 0 (Inl e)) = Some st1 \<Longrightarrow> inst_stuck st1"
  by (auto simp: inst_init_def fetchStatus_def fetchStatus_done_def sync_child_def view_def
      inst_showMessage_def inst_stuck_def remove_nth_def)

section \<open>Properties\<close>

text \<open>
  C7: in every reachable state the mounted child is the one lines 50--81 render from
  the App's own state: the WiFi setup exactly when loading is over and the status is
  present and says there is no internet, the install form exactly when loading is over
  and the status is present and says there is internet.
\<close>

theorem installer_child_fits_view:
  assumes "inst_reach st"
  shows "((\<exists>w. child st = WifiChild w) \<longleftrightarrow>
            \<not> inst_loading st \<and> js_truthy (status st) \<and> \<not> status_internet (status st)) \<and>
         ((\<exists>f. child st = FormChild f) \<longleftrightarrow>
            \<not> inst_loading st \<and> js_truthy (status st) \<and> status_internet (status st))"
  using inst_reach_child_fits[OF assms] by (cases "child st") (auto simp: view_def split: if_splits)

theorem installer_child_fits_view_witness:
  "\<exists>st. inst_run inst_init [StatusSettle 0 (Inr (Response True (Inr (JObj [(''internet'', JBool False), (''disks'', JArr [])]))))] = Some st \<and>
      ((\<exists>w. child st = WifiChild w) \<longleftrightarrow>
            \<not> inst_loading st \<and> js_truthy (status st) \<and> \<not> status_internet (status st)) \<and>
      ((\<exists>f. child st = FormChild f) \<longleftrightarrow>
            \<not> inst_loading st \<and> js_truthy (status st) \<and> status_internet (status st))"
proof -
  have "inst_run inst_init [StatusSettle 0 (Inr (Response True (Inr (JObj [(''internet'', JBool False), (''disks'', JArr [])]))))] \<noteq> None"
    by code_simp
  then obtain st where r: "inst_run inst_init [StatusSettle 0 (Inr (Response True (Inr (JObj [(''internet'', JBool False), (''disks'', JArr [])]))))] = Some st"
    by blast
  show ?thesis using installer_child_fits_view[OF inst_run_reach[OF inst_reach_init r]] r by blast
qed

text \<open>
  C13: when the first status request fails, the installer stays blank for good: the error
  message disappears after 5 s, nothing is in flight and no control is rendered, so no
  sequence of events brings up the WiFi setup or the install form.
\<close>

theorem installer_blank_after_failure:
  assumes "inst_run inst_init (StatusSettle 0 (Inl e) # evs) = Some st'"
  shows "view st' = VNone"
proof -
  obtain st1 where s1: "inst_step inst_init (StatusSettle 0 (Inl e)) = Some st1"
    and r: "inst_run st1 evs = Some st'"
    using assms by (auto split: option.splits)
  show ?thesis using inst_stuck_run[OF inst_init_failed[OF s1] r] by (rule inst_stuck_view)
qed

theorem installer_blank_after_failure_witness:
  "\<exists>st'. inst_run inst_init [StatusSettle 0 (Inl (Exn ''TypeError'' ''Failed to fetch'')), InstElapse 5000] = Some st' \<and>
         view st' = VNone"
proof -
  have "inst_run inst_init [StatusSettle 0 (Inl (Exn ''TypeError'' ''Failed to fetch'')), InstElapse 5000] \<noteq> None"
    by code_simp
  then obtain st' where r: "inst_run inst_init [StatusSettle 0 (Inl (Exn ''TypeError'' ''Failed to fetch'')), InstElapse 5000] = Some st'"
    by blast
  show ?thesis using installer_blank_after_failure[OF r] r by blast
qed

end
