(* ===== verification/Spec2Isabelle.thy ===== *)
theory Spec2Isabelle
  imports TomlSerialize TomlParse TomlRoundtrip ClientApp InstallerApp
begin

text \<open>
  \<^bold>\<open>A verification library for the homelab client UI and installer front ends.\<close>

  The repository has two React front ends. The client UI
  (\<open>src/homelab/client-ui/frontend\<close>) edits the server configuration as text:
  \<open>ConfigTab.tsx\<close> fetches the configuration object, prints it with \<open>toToml\<close>
  (lines 16--55) into a TOML-like dialect, lets the operator edit the text, reads it back
  with \<open>parseToml\<close> (lines 57--101) and posts \<open>JSON.stringify\<close> of the result;
  \<open>ServicesTab.tsx\<close> lists, downloads and deletes services; \<open>App.tsx\<close> holds the
  tabs, the rebuild button and the message the tabs show through \<open>showMessage\<close>. The
  installer (\<open>src/homelab/installer/frontend\<close>) fetches a status in \<open>App.tsx\<close> and
  mounts \<open>WifiSetup.tsx\<close> without internet, \<open>InstallForm.tsx\<close> with it. The library
  models the codec first, with the JavaScript semantics it rests on, then each component
  as a state machine, then the two shells that compose them.

  \<^bold>\<open>Theories.\<close>
  \<^item> \<open>Prelude\<close>: exceptions as values (\<open>sbind\<close> on \<open>'e + 'a\<close>), the string
    operations the code calls (\<open>trim\<close>, \<open>split\<close>, \<open>join\<close>, \<open>startsWith\<close>,
    \<open>endsWith\<close>, \<open>slice\<close>) and decimal digits.
  \<^item> \<open>JsValue\<close>: the value type (\<open>TomlValue\<close>, lines 5--14) as the JSON value that
    \<open>JSON.parse\<close> and \<open>response.json()\<close> build, objects as property lists in
    JavaScript's own-property order (array indices first, then insertion order), the
    property write with the inherited \<open>__proto__\<close> setter, \<open>in\<close> and
    \<open>Object.entries\<close>; writes keep the order invariant \<open>js_ordered\<close>.
  \<^item> \<open>JsNumber\<close>: Number::toString on exact decimals and the JSON number grammar.
  \<^item> \<open>JsonText\<close>: \<open>JSON.stringify\<close> and \<open>JSON.parse\<close>, the parser as one
    recursive-descent step function \<open>json_step\<close> bounded by fuel, with the lemmas
    on these library functions that the codec's proofs use (parsing a printed value
    gives it back; the fuel is enough).
  \<^item> \<open>TomlSerialize\<close>: \<open>toToml\<close>, its grouping loop \<open>group_entries\<close> and the
    three printing loops as a mutual recursion with a termination proof.
  \<^item> \<open>TomlParse\<close>: \<open>parseToml\<close>, its locals as the record \<open>parse_state\<close>, one
    definition per branch of the loop body, \<open>try\<close>/\<open>catch\<close> as a retry.
  \<^item> \<open>TomlRoundtrip\<close>: which documents the codec carries (\<open>doc_ok\<close>), the printed
    text line by line, the round trip, and the classes of input on which the codec
    departs from the specification.
  \<^item> \<open>WebRuntime\<close>: what the components share: thrown values, a settled \<open>fetch\<close>
    and \<open>response.json()\<close>, messages, the callbacks a child makes on its parent,
    truthiness, \<open>String(v)\<close> and property reads of server data.
  \<^item> \<open>ConfigTab\<close>, \<open>ServicesTab\<close>, \<open>InstallForm\<close>, \<open>WifiSetup\<close>: one theory
    per component. Its \<open>useState\<close> variables and its requests in flight form a
    record; each async handler is cut at its \<open>await\<close> into a definition that runs
    on the event starting it and one (\<open>..._done\<close>) that runs when the request settles,
    in any order relative to other events; the step function accepts exactly the events
    the rendered page offers (a disabled button or a spinner makes an event \<open>None\<close>);
    \<open>..._reach\<close> is the inductive set of reachable states and \<open>..._inv\<close> the
    invariant proved over it by rule induction.
  \<^item> \<open>ClientApp\<close> and \<open>InstallerApp\<close>: the shells, with explicit time for the
    5-second message timers. The client shell always mounts both tabs and applies their
    callbacks to its own state; the installer shell mounts the child its view selects and
    keeps the requests of an unmounted child in flight, applying only their callbacks.

  \<^bold>\<open>What is proved.\<close> The codec (\<open>TomlSerialize\<close>, \<open>TomlRoundtrip\<close>):
  \<open>parseToml\<close> of \<open>toToml\<close> gives back every document the format carries
  (\<open>doc_ok\<close>), exactly when its entries are in printing order and as the same map
  otherwise; \<open>toToml\<close> is total on values without \<open>null\<close> in arrays; its grouping
  loop equals the specification's three-way partition. Where the codec departs from the
  specification, each departure is a theorem over a whole class of inputs: \<open>toToml\<close>
  throws \<open>TypeError\<close> on every object with a table array holding \<open>null\<close>;
  \<open>parseToml\<close> throws \<open>TypeError\<close> on every text that opens a scalar as a
  section and assigns in it; it keeps a value \<open>JSON.parse\<close> rejects as text with
  one outer quote pair stripped; every string with a backslash that \<open>JSON.parse\<close>
  accepts in quotes comes back shorter; every table nested in a table comes back at the
  top level. The components: each request flag (\<open>saving\<close>, \<open>rebuilding\<close>,
  \<open>scanning\<close>, \<open>connecting\<close>, \<open>installing\<close>) is set exactly while its one
  request is in flight; the services spinner only while a load is; the installer mounts
  the WiFi setup exactly when its loaded status reports no internet and the install form
  exactly when it reports internet; every install request names a disk picked from the
  list while unmounted; the form's own checks of the SSH key and remote are never
  reached; an ok install response always completes the form and calls
  \<open>onSuccess\<close> exactly when its body is not \<open>null\<close>; messages are cleared within
  5000 ms, and earlier by the timer of an older message; loads of the services lists
  settle in any order, each storing its bodies whatever their status; a scan without
  \<open>networks\<close> leaves the WiFi page without controls; a failed first status leaves
  the installer blank for good. Composition: loading and saving an unedited
  configuration posts the object loaded, through the codec's round trip.

  \<^bold>\<open>Bounds and fuel.\<close> \<open>json_parse\<close> runs \<open>json_step\<close> with
  \<open>length s + 1\<close> units of fuel: every call consumes at least one character before
  recursing, so the lemma \<open>json_step_fuel\<close> shows the fuel never runs out. \<open>toToml\<close> terminates by the
  measure (largest subterm size, then list length). A table-array header throws
  \<open>RangeError\<close> once an array holds \<open>2 ^ 32 - 1\<close> elements, as \<open>push\<close> does; the
  round trip assumes fewer. Timers are due at most 5000 ms ahead.

  \<^bold>\<open>Not modelled.\<close> Numbers are exact decimals \<open>m \<times> 10 ^ e\<close>: rounding to
  binary64 is not modelled, which agrees with JavaScript on decimals of at most 15
  significant digits. Strings are lists of Latin-1 code units; \<open>JSON.parse\<close> of a
  \<open>\\u\<close> escape above 255 is reported as \<open>JUnsupported\<close>. A write the parser makes
  outside the document (to a prototype, or a named property of an array) ends the model
  with \<open>Unmodelled\<close>. The text of an engine's own exception messages is kept symbolic
  (\<open>Runtime\<close>). The server is not modelled: each settled request is an event whose
  outcome is any value, and the browser's URL validity check comes with the submit
  event. The rendered DOM is modelled only as far as it decides which events exist and
  whether rendering throws; styles, the \<open>useEffect\<close> scheduling beyond running once on
  mount, and page reloads are not modelled.
\<close>

end
